theory Spec2Isabelle
  imports Main "HOL-Library.AList" "HOL-Library.Sublist"
begin

section \<open>Python values\<close>

text \<open>
  The service of \<^verbatim>\<open>key_automaton.py\<close> keeps three module-level lists of
  dictionaries. A dictionary is an association list from field names to values, in
  insertion order; the values are the ones the source stores or receives as JSON.
  Floating-point JSON numbers are left out.
\<close>

datatype datetime = Datetime nat nat nat nat nat nat nat
  \<comment> \<open>year, month, day, hour, minute, second, microsecond\<close>

datatype val =
    VNone
  | VBool bool
  | VInt int
  | VStr string
  | VTime datetime
  | VList "val list"
  | VDict "(string \<times> val) list"

type_synonym dict = "(string \<times> val) list"

datatype error =
    HTTPException nat string
  | KeyError string
  | TypeError
  | AttributeError

datatype response = Json dict | JsonList "dict list"

text \<open>\<^verbatim>\<open>d[k]\<close> raises \<^verbatim>\<open>KeyError\<close> on a missing key; \<^verbatim>\<open>d[k] = v\<close>
  replaces the value in place or adds the key at the end.\<close>

definition getitem :: "dict \<Rightarrow> string \<Rightarrow> error + val" where
  "getitem d k = (case map_of d k of None \<Rightarrow> Inl (KeyError k) | Some v \<Rightarrow> Inr v)"

definition setitem :: "dict \<Rightarrow> string \<Rightarrow> val \<Rightarrow> dict" where
  "setitem d k v = AList.update k v d"

text \<open>\<^verbatim>\<open>x in v\<close> for a string \<open>x\<close>: membership in a list, substring of a string, key
  of a dictionary, and \<^verbatim>\<open>TypeError\<close> on a value that is not a container.\<close>

fun contains :: "string \<Rightarrow> val \<Rightarrow> error + bool" where
  "contains x (VList l) = Inr (VStr x \<in> set l)"
| "contains x (VStr s) = Inr (sublist x s)"
| "contains x (VDict d) = Inr (x \<in> fst ` set d)"
| "contains x v = Inl TypeError"

text \<open>\<^verbatim>\<open>v.append(x)\<close>: only a list has the method.\<close>

fun append_item :: "val \<Rightarrow> val \<Rightarrow> error + val" where
  "append_item (VList l) x = Inr (VList (l @ [x]))"
| "append_item v x = Inl AttributeError"

subsection \<open>Formatting\<close>

text \<open>The format specification \<^verbatim>\<open>:03d\<close> writes a non-negative integer in decimal,
  padded with zeros on the left to at least three characters.\<close>

definition digit_char :: "nat \<Rightarrow> char" where
  "digit_char d = ''0123456789'' ! d"

fun digits :: "nat \<Rightarrow> string" where
  "digits n = (if n < 10 then [digit_char n] else digits (n div 10) @ [digit_char (n mod 10)])"

declare digits.simps [simp del]

definition fmt_03d :: "nat \<Rightarrow> string" where
  "fmt_03d n = replicate (3 - length (digits n)) (CHR ''0'') @ digits n"

text \<open>
  What the process takes from outside the source file: the environment variable
  \<^verbatim>\<open>ADMIN_API_KEY\<close>, and three renderings of the Python library
  (\<^verbatim>\<open>datetime.isoformat\<close>, \<^verbatim>\<open>str\<close> of a value inside an f-string, and
  \<^verbatim>\<open>json.dumps\<close>). The renderings are parameters: no property below depends on
  the text they produce. Inside an f-string a value that is a \<^verbatim>\<open>str\<close> is inserted as
  it is.
\<close>

record runtime =
  ADMIN_API_KEY :: "string option"
  isoformat :: "datetime \<Rightarrow> string"
  str_of :: "val \<Rightarrow> string"
  json_dumps :: "dict \<Rightarrow> string"

definition fstring_value :: "runtime \<Rightarrow> val \<Rightarrow> string" where
  "fstring_value rt v = (case v of VStr s \<Rightarrow> s | _ \<Rightarrow> str_of rt v)"

section \<open>Security\<close>

definition ADMIN_KEYS :: "runtime \<Rightarrow> string set" where
  "ADMIN_KEYS rt =
     {case ADMIN_API_KEY rt of None \<Rightarrow> ''demo-admin-key-change-me'' | Some k \<Rightarrow> k}"

text \<open>The header \<^verbatim>\<open>x-admin-api-key\<close> is read with \<^verbatim>\<open>auto_error=False\<close>: a missing
  header is \<^verbatim>\<open>None\<close>, which is in no set of keys.\<close>

definition require_admin :: "runtime \<Rightarrow> string option \<Rightarrow> error + string" where
  "require_admin rt api_key =
     (case api_key of
        None \<Rightarrow> Inl (HTTPException 401 ''Invalid or missing admin API key'')
      | Some k \<Rightarrow>
          if k \<notin> ADMIN_KEYS rt
          then Inl (HTTPException 401 ''Invalid or missing admin API key'')
          else Inr k)"

section \<open>Models and storage\<close>

record KeyCreate =
  system_name :: string
  system_type :: string
  env :: string
  name :: string
  key_ref :: string

record AllocationCreate =
  key_id :: string
  consumer_type :: string
  consumer_id :: string
  scope :: dict

record state =
  api_keys_db :: "dict list"
  allocations_db :: "dict list"
  audit_log_db :: "dict list"

definition initial_keys :: "dict list" where
  "initial_keys =
     [ [ (''id'', VStr ''key-001''),
         (''name'', VStr ''Production Database''),
         (''system_name'', VStr ''PostgreSQL''),
         (''system_type'', VStr ''db''),
         (''env'', VStr ''prod''),
         (''status'', VStr ''active''),
         (''last_used_at'', VTime (Datetime 2024 2 7 12 0 0 0)),
         (''last_rotated_at'', VTime (Datetime 2024 2 1 0 0 0 0)),
         (''allocated_to'', VList [VStr ''Server-01'', VStr ''Server-02'']) ],
       [ (''id'', VStr ''key-002''),
         (''name'', VStr ''Payment Gateway''),
         (''system_name'', VStr ''Stripe''),
         (''system_type'', VStr ''payments''),
         (''env'', VStr ''prod''),
         (''status'', VStr ''active''),
         (''last_used_at'', VTime (Datetime 2024 2 6 18 30 0 0)),
         (''last_rotated_at'', VTime (Datetime 2024 1 15 0 0 0 0)),
         (''allocated_to'', VList [VStr ''API-Gateway'']) ],
       [ (''id'', VStr ''key-003''),
         (''name'', VStr ''Cloud Storage''),
         (''system_name'', VStr ''AWS S3''),
         (''system_type'', VStr ''storage''),
         (''env'', VStr ''prod''),
         (''status'', VStr ''active''),
         (''last_used_at'', VNone),
         (''last_rotated_at'', VTime (Datetime 2024 2 5 0 0 0 0)),
         (''allocated_to'', VList []) ] ]"

definition initial_state :: state where
  "initial_state = \<lparr> api_keys_db = initial_keys, allocations_db = [], audit_log_db = [] \<rparr>"

section \<open>Routes\<close>

text \<open>
  A route takes the readings of \<^verbatim>\<open>datetime.now()\<close> it makes, in order, and the
  storage; it returns what the caller gets (the raised exception or the returned value)
  together with the storage as the call leaves it. The dictionaries of a list are
  separate objects in the source (each comes from its own literal), so a change through
  one of them is a change at its position in the list.
\<close>

type_synonym outcome = "(error + response) \<times> state"

definition root :: "state \<Rightarrow> outcome" where
  "root s =
     (Inr (Json [(''service'', VStr ''API Key Automaton''),
                 (''version'', VStr ''1.0.0''),
                 (''status'', VStr ''running'')]), s)"

definition health :: "runtime \<Rightarrow> datetime \<Rightarrow> state \<Rightarrow> outcome" where
  "health rt now s =
     (Inr (Json [(''status'', VStr ''healthy''),
                 (''timestamp'', VStr (isoformat rt now)),
                 (''keys_count'', VInt (int (length (api_keys_db s))))]), s)"

definition create_key :: "runtime \<Rightarrow> KeyCreate \<Rightarrow> datetime \<Rightarrow> datetime \<Rightarrow> state \<Rightarrow> outcome" where
  "create_key rt payload now1 now2 s =
     (let key_id = ''key-'' @ fmt_03d (length (api_keys_db s) + 1);
          new_key = [(''id'', VStr key_id),
                     (''name'', VStr (name payload)),
                     (''system_name'', VStr (system_name payload)),
                     (''system_type'', VStr (system_type payload)),
                     (''env'', VStr (env payload)),
                     (''status'', VStr ''active''),
                     (''last_used_at'', VNone),
                     (''last_rotated_at'', VTime now1),
                     (''allocated_to'', VList [])];
          s1 = s\<lparr>api_keys_db := api_keys_db s @ [new_key]\<rparr>;
          s2 = s1\<lparr>audit_log_db := audit_log_db s1 @
                 [[(''timestamp'', VStr (isoformat rt now2)),
                   (''action'', VStr ''create_key''),
                   (''key_id'', VStr key_id),
                   (''details'', VStr (''Created key '' @ [CHR 0x27] @ name payload @ [CHR 0x27]))]]\<rparr>
      in (Inr (Json [(''status'', VStr ''ok''), (''key_id'', VStr key_id)]), s2))"

text \<open>
  The two parts of \<^verbatim>\<open>create_key\<close>, for the calls that overlap: the route is a plain
  function, which the framework runs in a worker thread, so another call can run between
  the line that reads \<^verbatim>\<open>len(api_keys_db)\<close> to make the id and the lines that build and
  append the credential and the audit entry with that id.
\<close>

definition next_key_id :: "state \<Rightarrow> string" where
  "next_key_id s = ''key-'' @ fmt_03d (length (api_keys_db s) + 1)"

definition store_key :: "runtime \<Rightarrow> KeyCreate \<Rightarrow> string \<Rightarrow> datetime \<Rightarrow> datetime \<Rightarrow> state \<Rightarrow> outcome" where
  "store_key rt payload kid now1 now2 s =
     (let new_key = [(''id'', VStr kid),
                     (''name'', VStr (name payload)),
                     (''system_name'', VStr (system_name payload)),
                     (''system_type'', VStr (system_type payload)),
                     (''env'', VStr (env payload)),
                     (''status'', VStr ''active''),
                     (''last_used_at'', VNone),
                     (''last_rotated_at'', VTime now1),
                     (''allocated_to'', VList [])];
          s1 = s\<lparr>api_keys_db := api_keys_db s @ [new_key]\<rparr>;
          s2 = s1\<lparr>audit_log_db := audit_log_db s1 @
                 [[(''timestamp'', VStr (isoformat rt now2)),
                   (''action'', VStr ''create_key''),
                   (''key_id'', VStr kid),
                   (''details'', VStr (''Created key '' @ [CHR 0x27] @ name payload @ [CHR 0x27]))]]\<rparr>
      in (Inr (Json [(''status'', VStr ''ok''), (''key_id'', VStr kid)]), s2))"

text \<open>\<^verbatim>\<open>list_keys\<close> has no parameter and returns the list itself. Turning the
  returned dictionaries into \<^verbatim>\<open>KeyOut\<close> values, whose fields are the nine fields of a
  stored credential, is done by the framework after the route has returned.\<close>

definition list_keys :: "state \<Rightarrow> outcome" where
  "list_keys s = (Inr (JsonList (api_keys_db s)), s)"

text \<open>The search loop of \<^verbatim>\<open>get_key\<close>, \<^verbatim>\<open>allocate_key\<close> and
  \<^verbatim>\<open>rotate_key\<close>: the position of the first dictionary whose \<^verbatim>\<open>id\<close> is the
  one asked for. Reading \<^verbatim>\<open>key["id"]\<close> raises on a dictionary without that field.\<close>

fun find_key :: "string \<Rightarrow> dict list \<Rightarrow> error + nat option" where
  "find_key kid [] = Inr None"
| "find_key kid (key # keys) =
     (case getitem key ''id'' of
        Inl e \<Rightarrow> Inl e
      | Inr v \<Rightarrow>
          if v = VStr kid then Inr (Some 0)
          else (case find_key kid keys of
                  Inl e \<Rightarrow> Inl e
                | Inr None \<Rightarrow> Inr None
                | Inr (Some i) \<Rightarrow> Inr (Some (Suc i))))"

definition get_key :: "string \<Rightarrow> state \<Rightarrow> outcome" where
  "get_key kid s =
     (case find_key kid (api_keys_db s) of
        Inl e \<Rightarrow> (Inl e, s)
      | Inr None \<Rightarrow> (Inl (HTTPException 404 ''Key not found''), s)
      | Inr (Some i) \<Rightarrow> (Inr (Json (api_keys_db s ! i)), s))"

text \<open>In \<^verbatim>\<open>allocate_key\<close> and \<^verbatim>\<open>rotate_key\<close> the test
  \<^verbatim>\<open>if not key_found\<close> is passed by every dictionary the loop can find, since a
  found dictionary has the field \<^verbatim>\<open>id\<close> and is not empty; it raises 404 exactly
  when the loop found none. The consumer id is appended to \<^verbatim>\<open>allocated_to\<close> only
  when it is not in it; the allocation record and the audit entry are appended in every
  case.\<close>

definition allocate_key :: "runtime \<Rightarrow> AllocationCreate \<Rightarrow> datetime \<Rightarrow> datetime \<Rightarrow> state \<Rightarrow> outcome" where
  "allocate_key rt payload now1 now2 s =
     (case find_key (key_id payload) (api_keys_db s) of
        Inl e \<Rightarrow> (Inl e, s)
      | Inr None \<Rightarrow> (Inl (HTTPException 404 ''Key not found''), s)
      | Inr (Some i) \<Rightarrow>
          let key_found = api_keys_db s ! i in
          (case getitem key_found ''allocated_to'' of
             Inl e \<Rightarrow> (Inl e, s)
           | Inr consumers \<Rightarrow>
               (case contains (consumer_id payload) consumers of
                  Inl e \<Rightarrow> (Inl e, s)
                | Inr present \<Rightarrow>
                    (case (if \<not> present
                           then (case append_item consumers (VStr (consumer_id payload)) of
                                   Inl e \<Rightarrow> Inl e
                                 | Inr consumers' \<Rightarrow>
                                     Inr (s\<lparr>api_keys_db := (api_keys_db s)
                                            [i := setitem key_found ''allocated_to'' consumers']\<rparr>))
                           else Inr s) of
                       Inl e \<Rightarrow> (Inl e, s)
                     | Inr s1 \<Rightarrow>
                         let allocation =
                               [(''id'', VStr (''alloc-'' @ fmt_03d (length (allocations_db s1) + 1))),
                                (''key_id'', VStr (key_id payload)),
                                (''consumer_type'', VStr (consumer_type payload)),
                                (''consumer_id'', VStr (consumer_id payload)),
                                (''scope'', VDict (scope payload)),
                                (''created_at'', VStr (isoformat rt now1))];
                             s2 = s1\<lparr>allocations_db := allocations_db s1 @ [allocation]\<rparr>;
                             s3 = s2\<lparr>audit_log_db := audit_log_db s2 @
                                    [[(''timestamp'', VStr (isoformat rt now2)),
                                      (''action'', VStr ''allocate_key''),
                                      (''key_id'', VStr (key_id payload)),
                                      (''details'', VStr (''Allocated to '' @ consumer_id payload))]]\<rparr>
                         in (case getitem allocation ''id'' of
                               Inl e \<Rightarrow> (Inl e, s3)
                             | Inr aid \<Rightarrow>
                                 (Inr (Json [(''status'', VStr ''allocated''),
                                             (''allocation_id'', aid)]), s3))))))"

definition list_allocations :: "state \<Rightarrow> outcome" where
  "list_allocations s = (Inr (JsonList (allocations_db s)), s)"

text \<open>In \<^verbatim>\<open>rotate_key\<close> the field \<^verbatim>\<open>name\<close> is read for the audit entry after
  \<^verbatim>\<open>last_rotated_at\<close> has been written.\<close>

definition rotate_key :: "runtime \<Rightarrow> string \<Rightarrow> datetime \<Rightarrow> datetime \<Rightarrow> state \<Rightarrow> outcome" where
  "rotate_key rt kid now1 now2 s =
     (case find_key kid (api_keys_db s) of
        Inl e \<Rightarrow> (Inl e, s)
      | Inr None \<Rightarrow> (Inl (HTTPException 404 ''Key not found''), s)
      | Inr (Some i) \<Rightarrow>
          let key_found = setitem (api_keys_db s ! i) ''last_rotated_at'' (VTime now1);
              s1 = s\<lparr>api_keys_db := (api_keys_db s)[i := key_found]\<rparr>
          in (case getitem key_found ''name'' of
                Inl e \<Rightarrow> (Inl e, s1)
              | Inr nm \<Rightarrow>
                  let s2 = s1\<lparr>audit_log_db := audit_log_db s1 @
                             [[(''timestamp'', VStr (isoformat rt now2)),
                               (''action'', VStr ''rotate_key''),
                               (''key_id'', VStr kid),
                               (''details'', VStr (''Rotated key '' @ [CHR 0x27] @
                                                   fstring_value rt nm @ [CHR 0x27]))]]\<rparr>
                  in (Inr (Json [(''status'', VStr ''rotated''), (''key_id'', VStr kid)]), s2)))"

text \<open>\<^verbatim>\<open>xs[-100:]\<close> is the whole list when it has at most 100 elements, and its
  last 100 otherwise; the subtraction on \<open>nat\<close> stops at 0, which gives both cases.\<close>

definition get_audit_log :: "state \<Rightarrow> outcome" where
  "get_audit_log s =
     (Inr (JsonList (drop (length (audit_log_db s) - 100) (audit_log_db s))), s)"

definition system_request :: "runtime \<Rightarrow> dict \<Rightarrow> datetime \<Rightarrow> state \<Rightarrow> outcome" where
  "system_request rt payload now s =
     (Inr (Json [(''status'', VStr ''logged'')]),
      s\<lparr>audit_log_db := audit_log_db s @
           [[(''timestamp'', VStr (isoformat rt now)),
             (''action'', VStr ''system_request''),
             (''details'', VStr (json_dumps rt payload))]]\<rparr>)"


section \<open>Requests\<close>

text \<open>
  A call is a request with its \<^verbatim>\<open>x-admin-api-key\<close> header and the two clock readings
  a route may make. The routes declared with
  \<^verbatim>\<open>dependencies=[Depends(require_admin)]\<close> run \<^verbatim>\<open>require_admin\<close> before their
  body; when it raises, the body does not run. \<^verbatim>\<open>/\<close> and \<^verbatim>\<open>/health\<close> have no
  dependency.
\<close>

datatype request =
    Root
  | Health
  | CreateKey KeyCreate
  | ListKeys
  | GetKey string
  | AllocateKey AllocationCreate
  | ListAllocations
  | RotateKey string
  | GetAuditLog
  | SystemRequest dict

record call =
  header :: "string option"
  request :: request
  clock1 :: datetime
  clock2 :: datetime

fun route :: "runtime \<Rightarrow> request \<Rightarrow> datetime \<Rightarrow> datetime \<Rightarrow> state \<Rightarrow> outcome" where
  "route rt Root t1 t2 s = root s"
| "route rt Health t1 t2 s = health rt t1 s"
| "route rt (CreateKey payload) t1 t2 s = create_key rt payload t1 t2 s"
| "route rt ListKeys t1 t2 s = list_keys s"
| "route rt (GetKey kid) t1 t2 s = get_key kid s"
| "route rt (AllocateKey payload) t1 t2 s = allocate_key rt payload t1 t2 s"
| "route rt ListAllocations t1 t2 s = list_allocations s"
| "route rt (RotateKey kid) t1 t2 s = rotate_key rt kid t1 t2 s"
| "route rt GetAuditLog t1 t2 s = get_audit_log s"
| "route rt (SystemRequest payload) t1 t2 s = system_request rt payload t1 s"

fun depends_on_admin :: "request \<Rightarrow> bool" where
  "depends_on_admin Root = False"
| "depends_on_admin Health = False"
| "depends_on_admin r = True"

definition handle :: "runtime \<Rightarrow> call \<Rightarrow> state \<Rightarrow> outcome" where
  "handle rt c s =
     (if depends_on_admin (request c)
      then (case require_admin rt (header c) of
              Inl e \<Rightarrow> (Inl e, s)
            | Inr k \<Rightarrow> route rt (request c) (clock1 c) (clock2 c) s)
      else route rt (request c) (clock1 c) (clock2 c) s)"

text \<open>Calls that do not overlap: each is handled on the storage the one before has
  left, whether that one returned or raised.\<close>

fun run :: "runtime \<Rightarrow> call list \<Rightarrow> state \<Rightarrow> state" where
  "run rt [] s = s"
| "run rt (c # cs) s = run rt cs (snd (handle rt c s))"

text \<open>
  Two \<^verbatim>\<open>create_key\<close> calls that overlap, in the schedule where both have made their
  id before either appends: the first call's id and the second call's id are read from
  the same storage, then the first call stores its credential, then the second. The
  result is what each caller gets and the storage both calls leave.
\<close>

definition overlapping_creates ::
  "runtime \<Rightarrow> KeyCreate \<Rightarrow> KeyCreate \<Rightarrow> datetime \<Rightarrow> datetime \<Rightarrow> state \<Rightarrow>
     (error + response) \<times> (error + response) \<times> state" where
  "overlapping_creates rt payload1 payload2 now1 now2 s =
     (let id1 = next_key_id s;
          id2 = next_key_id s;
          (r1, s1) = store_key rt payload1 id1 now1 now2 s;
          (r2, s2) = store_key rt payload2 id2 now1 now2 s1
      in (r1, r2, s2))"

section \<open>Notions used by the properties\<close>

text \<open>Reading a decimal numeral back: the inverse of the \<^verbatim>\<open>:03d\<close> format.\<close>

definition digit_val :: "char \<Rightarrow> nat" where
  "digit_val c = of_char c - 48"

definition value_of :: "string \<Rightarrow> nat" where
  "value_of s = foldl (\<lambda>a c. 10 * a + digit_val c) 0 s"

text \<open>The \<^verbatim>\<open>id\<close> fields of the credentials, in storage order, and the ids that
  \<^verbatim>\<open>create_key\<close> gives to the first \<open>n\<close> positions.\<close>

definition key_ids :: "dict list \<Rightarrow> val option list" where
  "key_ids keys = map (\<lambda>k. map_of k ''id'') keys"

definition expected_ids :: "nat \<Rightarrow> val option list" where
  "expected_ids n = map (\<lambda>i. Some (VStr (''key-'' @ fmt_03d (i + 1)))) [0..<n]"

definition has_field :: "string \<Rightarrow> dict \<Rightarrow> bool" where
  "has_field f d = (map_of d f \<noteq> None)"

text \<open>The listing the specification describes: the credentials that agree with each
  filter that is given, in storage order.\<close>

record key_filter =
  filter_status :: "string option"
  filter_environment :: "string option"
  filter_systemType :: "string option"

definition agrees :: "string option \<Rightarrow> val option \<Rightarrow> bool" where
  "agrees wanted actual = (case wanted of None \<Rightarrow> True | Some w \<Rightarrow> actual = Some (VStr w))"

definition matches :: "key_filter \<Rightarrow> dict \<Rightarrow> bool" where
  "matches flt k =
     (agrees (filter_status flt) (map_of k ''status'') \<and>
      agrees (filter_environment flt) (map_of k ''env'') \<and>
      agrees (filter_systemType flt) (map_of k ''system_type''))"

definition list_spec :: "key_filter \<Rightarrow> state \<Rightarrow> dict list" where
  "list_spec flt s = filter (matches flt) (api_keys_db s)"

text \<open>The routes whose body appends to \<^verbatim>\<open>audit_log_db\<close>.\<close>

fun logged :: "request \<Rightarrow> bool" where
  "logged (CreateKey payload) = True"
| "logged (AllocateKey payload) = True"
| "logged (RotateKey kid) = True"
| "logged (SystemRequest payload) = True"
| "logged r = False"

definition no_filter :: key_filter where
  "no_filter = \<lparr> filter_status = None, filter_environment = None, filter_systemType = None \<rparr>"

definition staging_filter :: key_filter where
  "staging_filter =
     \<lparr> filter_status = None, filter_environment = Some ''staging'', filter_systemType = None \<rparr>"

subsection \<open>Concrete inputs\<close>

definition demo_runtime :: runtime where
  "demo_runtime =
     \<lparr> ADMIN_API_KEY = None,
       isoformat = (\<lambda>t. ''2024-02-08T09:00:00''),
       str_of = (\<lambda>v. ''None''),
       json_dumps = (\<lambda>d. ''{}'') \<rparr>"

definition demo_time :: datetime where
  "demo_time = Datetime 2024 2 8 9 0 0 0"

definition admin_call :: "request \<Rightarrow> call" where
  "admin_call r =
     \<lparr> header = Some ''demo-admin-key-change-me'', request = r,
       clock1 = demo_time, clock2 = demo_time \<rparr>"

definition anonymous_call :: "request \<Rightarrow> call" where
  "anonymous_call r =
     \<lparr> header = None, request = r, clock1 = demo_time, clock2 = demo_time \<rparr>"

definition allocation_request :: "bool \<Rightarrow> AllocationCreate" where
  "allocation_request may_read =
     \<lparr> key_id = ''key-001'', consumer_type = ''service'', consumer_id = ''C1'',
       scope = [(''read'', VBool may_read)] \<rparr>"

definition key_request :: KeyCreate where
  "key_request =
     \<lparr> system_name = ''Redis'', system_type = ''cache'', env = ''dev'',
       name = ''Session Cache'', key_ref = ''vault:session-cache'' \<rparr>"

text \<open>The credentials and the audit entry after \<^verbatim>\<open>key-001\<close> is rotated at
  \<open>demo_time\<close> in the initial storage.\<close>

definition rotation_entry :: dict where
  "rotation_entry =
     [ (''timestamp'', VStr ''2024-02-08T09:00:00''),
       (''action'', VStr ''rotate_key''),
       (''key_id'', VStr ''key-001''),
       (''details'', VStr (''Rotated key '' @ [CHR 0x27] @ ''Production Database'' @ [CHR 0x27])) ]"

definition rotated_keys :: "dict list" where
  "rotated_keys =
     [ [ (''id'', VStr ''key-001''),
         (''name'', VStr ''Production Database''),
         (''system_name'', VStr ''PostgreSQL''),
         (''system_type'', VStr ''db''),
         (''env'', VStr ''prod''),
         (''status'', VStr ''active''),
         (''last_used_at'', VTime (Datetime 2024 2 7 12 0 0 0)),
         (''last_rotated_at'', VTime (Datetime 2024 2 8 9 0 0 0)),
         (''allocated_to'', VList [VStr ''Server-01'', VStr ''Server-02'']) ],
       initial_keys ! 1, initial_keys ! 2 ]"

text \<open>The storage after \<^verbatim>\<open>key-001\<close> is allocated to the consumer \<^verbatim>\<open>C1\<close> at
  \<open>demo_time\<close>, and the audit entry of a \<^verbatim>\<open>create_key\<close> call with
  \<open>key_request\<close> in the initial storage.\<close>

definition allocated_keys :: "dict list" where
  "allocated_keys =
     [ [ (''id'', VStr ''key-001''),
         (''name'', VStr ''Production Database''),
         (''system_name'', VStr ''PostgreSQL''),
         (''system_type'', VStr ''db''),
         (''env'', VStr ''prod''),
         (''status'', VStr ''active''),
         (''last_used_at'', VTime (Datetime 2024 2 7 12 0 0 0)),
         (''last_rotated_at'', VTime (Datetime 2024 2 1 0 0 0 0)),
         (''allocated_to'', VList [VStr ''Server-01'', VStr ''Server-02'', VStr ''C1'']) ],
       initial_keys ! 1, initial_keys ! 2 ]"

definition allocation_record :: "string \<Rightarrow> bool \<Rightarrow> dict" where
  "allocation_record ident may_read =
     [ (''id'', VStr ident),
       (''key_id'', VStr ''key-001''),
       (''consumer_type'', VStr ''service''),
       (''consumer_id'', VStr ''C1''),
       (''scope'', VDict [(''read'', VBool may_read)]),
       (''created_at'', VStr ''2024-02-08T09:00:00'') ]"

definition allocation_entry :: dict where
  "allocation_entry =
     [ (''timestamp'', VStr ''2024-02-08T09:00:00''),
       (''action'', VStr ''allocate_key''),
       (''key_id'', VStr ''key-001''),
       (''details'', VStr ''Allocated to C1'') ]"

definition creation_entry :: dict where
  "creation_entry =
     [ (''timestamp'', VStr ''2024-02-08T09:00:00''),
       (''action'', VStr ''create_key''),
       (''key_id'', VStr ''key-004''),
       (''details'', VStr (''Created key '' @ [CHR 0x27] @ ''Session Cache'' @ [CHR 0x27])) ]"

definition second_key_request :: KeyCreate where
  "second_key_request =
     \<lparr> system_name = ''Kafka'', system_type = ''queue'', env = ''dev'',
       name = ''Event Bus'', key_ref = ''vault:event-bus'' \<rparr>"

section \<open>Formatting is injective\<close>

lemma digit_val_digit_char: "d < 10 \<Longrightarrow> digit_val (digit_char d) = d"
proof -
  assume "d < 10"
  then have "d \<in> {0,1,2,3,4,5,6,7,8,9}" by auto
  then show ?thesis
    by (auto simp: digit_val_def digit_char_def)
qed

lemma value_of_snoc: "value_of (s @ [c]) = 10 * value_of s + digit_val c"
  by (simp add: value_of_def)

lemma value_of_digits: "value_of (digits n) = n"
proof (induction n rule: digits.induct)
  case (1 n)
  show ?case
  proof (cases "n < 10")
    case True
    then show ?thesis
      by (subst digits.simps) (simp add: value_of_def digit_val_digit_char)
  next
    case False
    then have "value_of (digits (n div 10)) = n div 10" using 1 by simp
    with False show ?thesis
      by (subst digits.simps) (simp add: value_of_snoc digit_val_digit_char)
  qed
qed

lemma value_of_replicate_zero: "value_of (replicate k (CHR ''0'')) = 0"
proof (induction k)
  case 0
  show ?case by (simp add: value_of_def)
next
  case (Suc k)
  have "replicate (Suc k) (CHR ''0'') = replicate k (CHR ''0'') @ [CHR ''0'']"
    by (simp add: replicate_append_same)
  then show ?case
    using Suc by (simp only: value_of_snoc) (simp add: digit_val_def)
qed

lemma value_of_zeros: "value_of (replicate k (CHR ''0'') @ s) = value_of s"
  using value_of_replicate_zero [of k] by (simp add: value_of_def)

lemma value_of_fmt_03d: "value_of (fmt_03d n) = n"
  by (simp add: fmt_03d_def value_of_zeros value_of_digits)

lemma fmt_03d_inj: "fmt_03d m = fmt_03d n \<Longrightarrow> m = n"
  by (metis value_of_fmt_03d)

section \<open>Dictionaries and the search loop\<close>

lemma map_of_setitem: "map_of (setitem d k v) f = (if f = k then Some v else map_of d f)"
  by (simp add: setitem_def update_conv')

lemma find_key_Some:
  "find_key kid keys = Inr (Some i) \<Longrightarrow> i < length keys \<and> map_of (keys ! i) ''id'' = Some (VStr kid)"
proof (induction keys arbitrary: i)
  case Nil
  then show ?case by simp
next
  case (Cons k keys)
  then show ?case
    by (auto simp: getitem_def split: option.splits if_splits sum.splits)
qed

lemma find_key_None:
  "find_key kid keys = Inr None \<Longrightarrow> k \<in> set keys \<Longrightarrow> map_of k ''id'' \<noteq> Some (VStr kid)"
  by (induction keys) (auto simp: getitem_def split: option.splits if_splits sum.splits)

lemma find_key_no_match:
  "\<forall>k \<in> set keys. has_field ''id'' k \<and> map_of k ''id'' \<noteq> Some (VStr kid) \<Longrightarrow> find_key kid keys = Inr None"
  by (induction keys) (auto simp: getitem_def has_field_def split: option.splits)

lemma find_key_no_error:
  "\<forall>k \<in> set keys. has_field ''id'' k \<Longrightarrow> find_key kid keys \<noteq> Inl e"
  by (induction keys) (auto simp: getitem_def has_field_def split: option.splits sum.splits)

lemma rotate_key_success:
  assumes "rotate_key rt kid t1 t2 s = (Inr r, s')"
  shows "\<exists>i nm. find_key kid (api_keys_db s) = Inr (Some i) \<and>
           map_of (api_keys_db s ! i) ''name'' = Some nm \<and>
           r = Json [(''status'', VStr ''rotated''), (''key_id'', VStr kid)] \<and>
           s' = s\<lparr>api_keys_db := (api_keys_db s)
                     [i := setitem (api_keys_db s ! i) ''last_rotated_at'' (VTime t1)],
                  audit_log_db := audit_log_db s @
                     [[(''timestamp'', VStr (isoformat rt t2)),
                       (''action'', VStr ''rotate_key''),
                       (''key_id'', VStr kid),
                       (''details'', VStr (''Rotated key '' @ [CHR 0x27] @
                                           fstring_value rt nm @ [CHR 0x27]))]]\<rparr>"
  using assms
  by (auto simp: rotate_key_def Let_def getitem_def map_of_setitem
           split: sum.splits option.splits)

lemma allocate_key_success:
  assumes "allocate_key rt p t1 t2 s = (Inr r, s')"
  shows "\<exists>i consumers. find_key (key_id p) (api_keys_db s) = Inr (Some i) \<and>
           map_of (api_keys_db s ! i) ''allocated_to'' = Some consumers \<and>
           r = Json [(''status'', VStr ''allocated''),
                     (''allocation_id'', VStr (''alloc-'' @ fmt_03d (length (allocations_db s) + 1)))] \<and>
           ((contains (consumer_id p) consumers = Inr True \<and> api_keys_db s' = api_keys_db s) \<or>
            (\<exists>l. consumers = VList l \<and> VStr (consumer_id p) \<notin> set l \<and>
                 api_keys_db s' = (api_keys_db s)
                   [i := setitem (api_keys_db s ! i) ''allocated_to''
                           (VList (l @ [VStr (consumer_id p)]))])) \<and>
           allocations_db s' = allocations_db s @
             [[(''id'', VStr (''alloc-'' @ fmt_03d (length (allocations_db s) + 1))),
               (''key_id'', VStr (key_id p)),
               (''consumer_type'', VStr (consumer_type p)),
               (''consumer_id'', VStr (consumer_id p)),
               (''scope'', VDict (scope p)),
               (''created_at'', VStr (isoformat rt t1))]] \<and>
           audit_log_db s' = audit_log_db s @
             [[(''timestamp'', VStr (isoformat rt t2)),
               (''action'', VStr ''allocate_key''),
               (''key_id'', VStr (key_id p)),
               (''details'', VStr (''Allocated to '' @ consumer_id p))]]"
proof -
  from assms obtain i where i: "find_key (key_id p) (api_keys_db s) = Inr (Some i)"
    by (auto simp: allocate_key_def split: sum.splits option.splits)
  from assms i obtain consumers where c: "map_of (api_keys_db s ! i) ''allocated_to'' = Some consumers"
    by (auto simp: allocate_key_def Let_def getitem_def split: sum.splits option.splits)
  from assms i c obtain present where pr: "contains (consumer_id p) consumers = Inr present"
    by (auto simp: allocate_key_def Let_def getitem_def split: sum.splits option.splits)
  show ?thesis
  proof (cases present)
    case True
    with assms i c pr show ?thesis
      by (auto simp: allocate_key_def Let_def getitem_def)
  next
    case False
    with assms i c pr obtain l where l: "consumers = VList l"
      by (cases consumers) (auto simp: allocate_key_def Let_def getitem_def)
    with False assms i c pr show ?thesis
      by (auto simp: allocate_key_def Let_def getitem_def)
  qed
qed

section \<open>What a call does to the credentials\<close>

lemma handle_keys:
  "api_keys_db (snd (handle rt c s)) = api_keys_db s \<or>
   (\<exists>p t. request c = CreateKey p \<and> api_keys_db (snd (handle rt c s)) = api_keys_db s @
      [[(''id'', VStr (''key-'' @ fmt_03d (length (api_keys_db s) + 1))),
        (''name'', VStr (name p)),
        (''system_name'', VStr (system_name p)),
        (''system_type'', VStr (system_type p)),
        (''env'', VStr (env p)),
        (''status'', VStr ''active''),
        (''last_used_at'', VNone),
        (''last_rotated_at'', VTime t),
        (''allocated_to'', VList [])]]) \<or>
   (\<exists>i f v. i < length (api_keys_db s) \<and> (f = ''last_rotated_at'' \<or> f = ''allocated_to'') \<and>
      api_keys_db (snd (handle rt c s)) = (api_keys_db s)[i := setitem (api_keys_db s ! i) f v])"
proof (cases "depends_on_admin (request c) \<and> require_admin rt (header c) \<noteq> Inr (the (header c))")
  case True
  then show ?thesis
    by (auto simp: handle_def require_admin_def split: sum.splits option.splits if_splits)
next
  case False
  then have h: "handle rt c s = route rt (request c) (clock1 c) (clock2 c) s"
    by (auto simp: handle_def require_admin_def split: sum.splits option.splits if_splits)
  show ?thesis
  proof (cases "request c")
    case (CreateKey p)
    then show ?thesis unfolding h by (simp add: create_key_def Let_def)
  next
    case (AllocateKey p)
    show ?thesis
    proof (cases "find_key (key_id p) (api_keys_db s)")
      case (Inl e)
      then show ?thesis unfolding h AllocateKey by (simp add: allocate_key_def)
    next
      case (Inr found)
      show ?thesis
      proof (cases found)
        case None
        then show ?thesis unfolding h AllocateKey using Inr by (simp add: allocate_key_def)
      next
        case (Some i)
        then have "i < length (api_keys_db s)" using Inr find_key_Some by blast
        then show ?thesis unfolding h AllocateKey using Inr Some
          by (auto simp: allocate_key_def Let_def getitem_def split: sum.splits option.splits if_splits)
      qed
    qed
  next
    case (RotateKey kid)
    show ?thesis
    proof (cases "find_key kid (api_keys_db s)")
      case (Inl e)
      then show ?thesis unfolding h RotateKey by (simp add: rotate_key_def)
    next
      case (Inr found)
      show ?thesis
      proof (cases found)
        case None
        then show ?thesis unfolding h RotateKey using Inr by (simp add: rotate_key_def)
      next
        case (Some i)
        then have "i < length (api_keys_db s)" using Inr find_key_Some by blast
        then show ?thesis unfolding h RotateKey using Inr Some
          by (auto simp: rotate_key_def Let_def getitem_def split: sum.splits option.splits)
      qed
    qed
  qed (simp_all add: h root_def health_def list_keys_def get_key_def list_allocations_def
         get_audit_log_def system_request_def split: sum.splits option.splits)
qed

lemma handle_preserves_keys:
  assumes all: "\<forall>k \<in> set (api_keys_db s). Q k"
    and rot: "\<And>k v. Q k \<Longrightarrow> Q (setitem k ''last_rotated_at'' v)"
    and alloc: "\<And>k v. Q k \<Longrightarrow> Q (setitem k ''allocated_to'' v)"
    and new: "\<And>kid nm sn st e t. Q [(''id'', VStr kid),
        (''name'', VStr nm),
        (''system_name'', VStr sn),
        (''system_type'', VStr st),
        (''env'', VStr e),
        (''status'', VStr ''active''),
        (''last_used_at'', VNone),
        (''last_rotated_at'', VTime t),
        (''allocated_to'', VList [])]"
  shows "\<forall>k \<in> set (api_keys_db (snd (handle rt c s))). Q k"
proof -
  let ?keys' = "api_keys_db (snd (handle rt c s))"
  from handle_keys [of rt c s] show ?thesis
  proof (elim disjE exE conjE)
    assume "?keys' = api_keys_db s"
    then show ?thesis using all by simp
  next
    fix p t
    assume "?keys' = api_keys_db s @
      [[(''id'', VStr (''key-'' @ fmt_03d (length (api_keys_db s) + 1))),
        (''name'', VStr (name p)),
        (''system_name'', VStr (system_name p)),
        (''system_type'', VStr (system_type p)),
        (''env'', VStr (env p)),
        (''status'', VStr ''active''),
        (''last_used_at'', VNone),
        (''last_rotated_at'', VTime t),
        (''allocated_to'', VList [])]]"
    then show ?thesis using all new by simp
  next
    fix i f v
    assume i: "i < length (api_keys_db s)"
      and f: "f = ''last_rotated_at''"
      and upd: "?keys' = (api_keys_db s)[i := setitem (api_keys_db s ! i) f v]"
    have "Q (api_keys_db s ! i)" using i all by simp
    then have "Q (setitem (api_keys_db s ! i) f v)"
      using f rot by blast
    then show ?thesis
      using upd all set_update_subset_insert [of "api_keys_db s" i] by auto
  next
    fix i f v
    assume i: "i < length (api_keys_db s)"
      and f: "f = ''allocated_to''"
      and upd: "?keys' = (api_keys_db s)[i := setitem (api_keys_db s ! i) f v]"
    have "Q (api_keys_db s ! i)" using i all by simp
    then have "Q (setitem (api_keys_db s ! i) f v)"
      using f alloc by blast
    then show ?thesis
      using upd all set_update_subset_insert [of "api_keys_db s" i] by auto
  qed
qed

lemma run_preserves_keys:
  assumes all: "\<forall>k \<in> set (api_keys_db s). Q k"
    and rot: "\<And>k v. Q k \<Longrightarrow> Q (setitem k ''last_rotated_at'' v)"
    and alloc: "\<And>k v. Q k \<Longrightarrow> Q (setitem k ''allocated_to'' v)"
    and new: "\<And>kid nm sn st e t. Q [(''id'', VStr kid),
        (''name'', VStr nm),
        (''system_name'', VStr sn),
        (''system_type'', VStr st),
        (''env'', VStr e),
        (''status'', VStr ''active''),
        (''last_used_at'', VNone),
        (''last_rotated_at'', VTime t),
        (''allocated_to'', VList [])]"
  shows "\<forall>k \<in> set (api_keys_db (run rt cs s)). Q k"
  using all
proof (induction cs arbitrary: s)
  case Nil
  then show ?case by simp
next
  case (Cons c cs)
  have "\<forall>k \<in> set (api_keys_db (snd (handle rt c s))). Q k"
    using handle_preserves_keys [of s Q rt c] Cons.prems rot alloc new by blast
  then show ?case using Cons.IH by simp
qed

lemma initial_fields:
  "\<forall>k \<in> set (api_keys_db initial_state).
     has_field ''id'' k \<and> has_field ''name'' k \<and> map_of k ''currentVersion'' = None"
  by (simp add: initial_state_def initial_keys_def has_field_def)

lemma reachable_fields:
  "\<forall>k \<in> set (api_keys_db (run rt cs initial_state)).
     has_field ''id'' k \<and> has_field ''name'' k \<and> map_of k ''currentVersion'' = None"
  by (rule run_preserves_keys [OF initial_fields]) (simp_all add: has_field_def map_of_setitem)

section \<open>Evaluating the concrete inputs\<close>

lemmas demo_defs = demo_runtime_def demo_time_def admin_call_def anonymous_call_def
  allocation_request_def key_request_def initial_state_def initial_keys_def

lemma admin_accepted:
  "require_admin demo_runtime (Some ''demo-admin-key-change-me'') = Inr ''demo-admin-key-change-me''"
  by (simp add: require_admin_def ADMIN_KEYS_def demo_runtime_def)

lemma handle_admin_call:
  "handle demo_runtime (admin_call r) s = route demo_runtime r demo_time demo_time s"
  by (simp add: handle_def admin_call_def admin_accepted)

lemma rotate_key_001:
  "handle demo_runtime (admin_call (RotateKey ''key-001'')) initial_state =
     (Inr (Json [(''status'', VStr ''rotated''), (''key_id'', VStr ''key-001'')]),
      \<lparr> api_keys_db = rotated_keys, allocations_db = [], audit_log_db = [rotation_entry] \<rparr>)"
  unfolding handle_admin_call route.simps
  by (simp add: rotate_key_def rotated_keys_def rotation_entry_def
        initial_state_def initial_keys_def getitem_def setitem_def Let_def
        demo_runtime_def demo_time_def fstring_value_def)

lemma rotate_key_001_again:
  "handle demo_runtime (admin_call (RotateKey ''key-001''))
      \<lparr> api_keys_db = rotated_keys, allocations_db = [], audit_log_db = [rotation_entry] \<rparr> =
     (Inr (Json [(''status'', VStr ''rotated''), (''key_id'', VStr ''key-001'')]),
      \<lparr> api_keys_db = rotated_keys, allocations_db = [],
        audit_log_db = [rotation_entry, rotation_entry] \<rparr>)"
  unfolding handle_admin_call route.simps
  by (simp add: rotate_key_def rotated_keys_def rotation_entry_def
        initial_keys_def getitem_def setitem_def Let_def
        demo_runtime_def demo_time_def fstring_value_def)

lemma run_rotate_twice:
  "api_keys_db (run demo_runtime [admin_call (RotateKey ''key-001''), admin_call (RotateKey ''key-001'')] initial_state) =
   api_keys_db (run demo_runtime [admin_call (RotateKey ''key-001'')] initial_state)"
  by (simp only: run.simps rotate_key_001 rotate_key_001_again snd_conv state.simps)

lemma fmt_03d_small:
  "fmt_03d (Suc 0) = ''001''" "fmt_03d 1 = ''001''" "fmt_03d 2 = ''002''" "fmt_03d (Suc (Suc 0)) = ''002''"
  by code_simp+

lemma fmt_03d_4: "fmt_03d 4 = ''004''" "fmt_03d (Suc (Suc (Suc (Suc 0)))) = ''004''"
proof -
  show "fmt_03d 4 = ''004''" by code_simp
  then show "fmt_03d (Suc (Suc (Suc (Suc 0)))) = ''004''"
    by (simp add: eval_nat_numeral)
qed

lemma allocate_first:
  "allocate_key demo_runtime (allocation_request True) demo_time demo_time initial_state =
     (Inr (Json [(''status'', VStr ''allocated''), (''allocation_id'', VStr ''alloc-001'')]),
      \<lparr> api_keys_db = allocated_keys,
        allocations_db = [allocation_record ''alloc-001'' True],
        audit_log_db = [allocation_entry] \<rparr>)"
  by (simp add: allocate_key_def initial_state_def initial_keys_def allocation_request_def
        allocated_keys_def allocation_record_def allocation_entry_def
        getitem_def setitem_def Let_def demo_runtime_def demo_time_def fmt_03d_small)

lemma allocate_second:
  "allocate_key demo_runtime (allocation_request False) demo_time demo_time
     \<lparr> api_keys_db = allocated_keys,
       allocations_db = [allocation_record ''alloc-001'' True],
       audit_log_db = [allocation_entry] \<rparr> =
     (Inr (Json [(''status'', VStr ''allocated''), (''allocation_id'', VStr ''alloc-002'')]),
      \<lparr> api_keys_db = allocated_keys,
        allocations_db = [allocation_record ''alloc-001'' True, allocation_record ''alloc-002'' False],
        audit_log_db = [allocation_entry, allocation_entry] \<rparr>)"
  by (simp add: allocate_key_def initial_keys_def allocation_request_def
        allocated_keys_def allocation_record_def allocation_entry_def
        getitem_def setitem_def Let_def demo_runtime_def demo_time_def fmt_03d_small)

lemma create_session_cache:
  "audit_log_db (snd (handle demo_runtime (admin_call (CreateKey key_request)) initial_state)) =
     [creation_entry] \<and>
   fst (handle demo_runtime (admin_call (CreateKey key_request)) initial_state) =
     Inr (Json [(''status'', VStr ''ok''), (''key_id'', VStr ''key-004'')])"
  unfolding handle_admin_call route.simps
  by (simp add: create_key_def initial_state_def initial_keys_def key_request_def
        creation_entry_def Let_def demo_runtime_def demo_time_def fmt_03d_4)

section \<open>Calls that fail\<close>

lemma rotate_key_not_found:
  "find_key kid (api_keys_db s) = Inr None \<Longrightarrow>
   rotate_key rt kid t1 t2 s = (Inl (HTTPException 404 ''Key not found''), s)"
  by (simp add: rotate_key_def)

lemma rotate_key_failure:
  assumes named: "\<forall>k \<in> set (api_keys_db s). has_field ''name'' k"
    and fails: "rotate_key rt kid t1 t2 s = (Inl e, s')"
  shows "s' = s"
proof (cases "find_key kid (api_keys_db s)")
  case (Inl e')
  then show ?thesis using fails by (simp add: rotate_key_def)
next
  case (Inr found)
  show ?thesis
  proof (cases found)
    case None
    then show ?thesis using fails Inr by (simp add: rotate_key_def)
  next
    case (Some i)
    then have "i < length (api_keys_db s)" using Inr find_key_Some by blast
    then have "has_field ''name'' (api_keys_db s ! i)" using named by simp
    then show ?thesis using fails Inr Some
      by (auto simp: rotate_key_def Let_def getitem_def map_of_setitem has_field_def
               split: option.splits)
  qed
qed

lemma allocate_key_failure:
  assumes "allocate_key rt p t1 t2 s = (Inl e, s')"
  shows "s' = s"
  using assms
  by (auto simp: allocate_key_def Let_def getitem_def
           split: sum.splits option.splits if_splits)

lemma route_failure:
  assumes named: "\<forall>k \<in> set (api_keys_db s). has_field ''name'' k"
    and fails: "route rt r t1 t2 s = (Inl e, s')"
  shows "s' = s"
proof (cases r)
  case (AllocateKey p)
  then show ?thesis using fails allocate_key_failure by simp
next
  case (RotateKey kid)
  then show ?thesis using fails named rotate_key_failure by simp
next
  case (GetKey kid)
  then show ?thesis using fails
    by (auto simp: get_key_def split: sum.splits option.splits)
qed (use fails in \<open>auto simp: root_def health_def create_key_def Let_def list_keys_def
       list_allocations_def get_audit_log_def system_request_def\<close>)

lemma handle_failure:
  assumes named: "\<forall>k \<in> set (api_keys_db s). has_field ''name'' k"
    and fails: "handle rt c s = (Inl e, s')"
  shows "s' = s"
  using fails route_failure [OF named]
  by (auto simp: handle_def split: if_splits sum.splits)

text \<open>
  C5. In every storage the service can reach from its initial one, a call that fails
  leaves the storage as it was: no field of a credential or of an allocation is changed
  and the audit log is the same. In particular \<^verbatim>\<open>rotate_key\<close> with an id that no
  credential has fails with 404 (Key not found) and changes nothing.
\<close>

theorem failed_call_leaves_storage:
  assumes "s = run rt cs initial_state"
  shows "(handle rt c s = (Inl e, s') \<longrightarrow> s' = s) \<and>
         ((\<forall>k \<in> set (api_keys_db s). map_of k ''id'' \<noteq> Some (VStr kid)) \<longrightarrow>
            rotate_key rt kid t1 t2 s = (Inl (HTTPException 404 ''Key not found''), s))"
proof -
  have fields: "\<forall>k \<in> set (api_keys_db s). has_field ''id'' k \<and> has_field ''name'' k"
    using reachable_fields [of rt cs] assms by simp
  then have "handle rt c s = (Inl e, s') \<longrightarrow> s' = s"
    using handle_failure [of s rt c e s'] by blast
  moreover have "rotate_key rt kid t1 t2 s = (Inl (HTTPException 404 ''Key not found''), s)"
    if "\<forall>k \<in> set (api_keys_db s). map_of k ''id'' \<noteq> Some (VStr kid)"
    using that fields find_key_no_match [of "api_keys_db s" kid] rotate_key_not_found
    by blast
  ultimately show ?thesis by blast
qed

lemma rotate_missing_key:
  "handle demo_runtime (admin_call (RotateKey ''key-999'')) initial_state =
     (Inl (HTTPException 404 ''Key not found''), initial_state)"
  by (simp add: handle_def admin_call_def admin_accepted rotate_key_def
        initial_state_def initial_keys_def getitem_def)

text \<open>The property at the initial storage, for a rotation of the unknown id
  \<^verbatim>\<open>key-999\<close>.\<close>

theorem failed_call_leaves_storage_witness:
  "initial_state = run demo_runtime [] initial_state \<and>
   handle demo_runtime (admin_call (RotateKey ''key-999'')) initial_state =
     (Inl (HTTPException 404 ''Key not found''), initial_state) \<and>
   rotate_key demo_runtime ''key-999'' demo_time demo_time initial_state =
     (Inl (HTTPException 404 ''Key not found''), initial_state)"
proof -
  have reach: "initial_state = run demo_runtime [] initial_state" by simp
  have no_match: "\<forall>k \<in> set (api_keys_db initial_state). map_of k ''id'' \<noteq> Some (VStr ''key-999'')"
    by (simp add: initial_state_def initial_keys_def)
  from failed_call_leaves_storage [OF reach, of "admin_call (RotateKey ''key-999'')"
      "HTTPException 404 ''Key not found''" initial_state "''key-999''" demo_time demo_time]
    no_match rotate_missing_key reach
  show ?thesis by blast
qed

section \<open>Authorization comes first\<close>

text \<open>
  C6. Every route other than \<^verbatim>\<open>/\<close> and \<^verbatim>\<open>/health\<close> (so create, rotate,
  allocate, the listings and the audit-log query) fails with 401 when
  \<^verbatim>\<open>require_admin\<close> rejects the caller's key, and the storage, the audit log included,
  is exactly what it was before the call.
\<close>

theorem denied_call_is_rejected_first:
  assumes "require_admin rt (header c) = Inl e" and "request c \<notin> {Root, Health}"
  shows "handle rt c s = (Inl (HTTPException 401 ''Invalid or missing admin API key''), s)"
proof -
  have "depends_on_admin (request c)"
    using assms(2) by (cases "request c") simp_all
  moreover have "e = HTTPException 401 ''Invalid or missing admin API key''"
    using assms(1) by (auto simp: require_admin_def split: option.splits if_splits)
  ultimately show ?thesis using assms(1) by (simp add: handle_def)
qed

lemma anonymous_denied:
  "require_admin demo_runtime (header (anonymous_call r)) =
     Inl (HTTPException 401 ''Invalid or missing admin API key'')"
  by (simp add: require_admin_def anonymous_call_def)

text \<open>The property for a \<^verbatim>\<open>create_key\<close> request without the header.\<close>

theorem denied_call_is_rejected_first_witness:
  "require_admin demo_runtime (header (anonymous_call (CreateKey key_request))) =
     Inl (HTTPException 401 ''Invalid or missing admin API key'') \<and>
   request (anonymous_call (CreateKey key_request)) \<notin> {Root, Health} \<and>
   handle demo_runtime (anonymous_call (CreateKey key_request)) initial_state =
     (Inl (HTTPException 401 ''Invalid or missing admin API key''), initial_state)"
proof -
  have denied: "require_admin demo_runtime (header (anonymous_call (CreateKey key_request))) =
     Inl (HTTPException 401 ''Invalid or missing admin API key'')"
    by (rule anonymous_denied)
  have guarded: "request (anonymous_call (CreateKey key_request)) \<notin> {Root, Health}"
    by (simp add: anonymous_call_def)
  from denied_call_is_rejected_first [OF denied guarded] denied guarded
  show ?thesis by simp
qed

section \<open>What a rotation changes\<close>

text \<open>
  C9. A successful \<^verbatim>\<open>rotate_key\<close> changes one credential, the first with the given
  id, and of that credential only the field \<^verbatim>\<open>last_rotated_at\<close>, which becomes the
  time read by the call. Every other field of it, every other credential and the
  allocations are as before; the audit log has one more entry at its end.
\<close>

theorem rotate_key_frame:
  assumes "rotate_key rt kid t1 t2 s = (Inr r, s')"
  shows "\<exists>i entry. i < length (api_keys_db s) \<and>
     map_of (api_keys_db s ! i) ''id'' = Some (VStr kid) \<and>
     length (api_keys_db s') = length (api_keys_db s) \<and>
     (\<forall>j. j \<noteq> i \<longrightarrow> api_keys_db s' ! j = api_keys_db s ! j) \<and>
     (\<forall>f. f \<noteq> ''last_rotated_at'' \<longrightarrow>
          map_of (api_keys_db s' ! i) f = map_of (api_keys_db s ! i) f) \<and>
     map_of (api_keys_db s' ! i) ''last_rotated_at'' = Some (VTime t1) \<and>
     allocations_db s' = allocations_db s \<and>
     audit_log_db s' = audit_log_db s @ [entry]"
proof -
  from rotate_key_success [OF assms] obtain i nm where
    found: "find_key kid (api_keys_db s) = Inr (Some i)" and
    s': "s' = s\<lparr>api_keys_db := (api_keys_db s)
                     [i := setitem (api_keys_db s ! i) ''last_rotated_at'' (VTime t1)],
                  audit_log_db := audit_log_db s @
                     [[(''timestamp'', VStr (isoformat rt t2)),
                       (''action'', VStr ''rotate_key''),
                       (''key_id'', VStr kid),
                       (''details'', VStr (''Rotated key '' @ [CHR 0x27] @
                                           fstring_value rt nm @ [CHR 0x27]))]]\<rparr>"
    by blast
  from find_key_Some [OF found] have i: "i < length (api_keys_db s)"
    and ident: "map_of (api_keys_db s ! i) ''id'' = Some (VStr kid)" by simp_all
  show ?thesis
    using i ident by (intro exI [of _ i] exI) (simp add: s' map_of_setitem)
qed

lemma rotate_key_002:
  "rotate_key demo_runtime ''key-002'' demo_time demo_time initial_state =
     (Inr (Json [(''status'', VStr ''rotated''), (''key_id'', VStr ''key-002'')]),
      snd (rotate_key demo_runtime ''key-002'' demo_time demo_time initial_state))"
  by (simp add: rotate_key_def demo_defs getitem_def setitem_def Let_def)

text \<open>The property for a rotation of \<^verbatim>\<open>key-002\<close> in the initial storage.\<close>

theorem rotate_key_frame_witness:
  "fst (rotate_key demo_runtime ''key-002'' demo_time demo_time initial_state) =
     Inr (Json [(''status'', VStr ''rotated''), (''key_id'', VStr ''key-002'')]) \<and>
   (\<exists>i entry. i < length (api_keys_db initial_state) \<and>
     map_of (api_keys_db initial_state ! i) ''id'' = Some (VStr ''key-002'') \<and>
     length (api_keys_db (snd (rotate_key demo_runtime ''key-002'' demo_time demo_time initial_state))) =
       length (api_keys_db initial_state) \<and>
     (\<forall>j. j \<noteq> i \<longrightarrow>
        api_keys_db (snd (rotate_key demo_runtime ''key-002'' demo_time demo_time initial_state)) ! j =
        api_keys_db initial_state ! j) \<and>
     (\<forall>f. f \<noteq> ''last_rotated_at'' \<longrightarrow>
        map_of (api_keys_db (snd (rotate_key demo_runtime ''key-002'' demo_time demo_time initial_state)) ! i) f =
        map_of (api_keys_db initial_state ! i) f) \<and>
     map_of (api_keys_db (snd (rotate_key demo_runtime ''key-002'' demo_time demo_time initial_state)) ! i)
       ''last_rotated_at'' = Some (VTime demo_time) \<and>
     allocations_db (snd (rotate_key demo_runtime ''key-002'' demo_time demo_time initial_state)) =
       allocations_db initial_state \<and>
     audit_log_db (snd (rotate_key demo_runtime ''key-002'' demo_time demo_time initial_state)) =
       audit_log_db initial_state @ [entry])"
  using rotate_key_frame [OF rotate_key_002] rotate_key_002 by (metis fst_conv)

section \<open>Credential ids\<close>

lemma key_ids_update:
  assumes "i < length keys" and "f \<noteq> ''id''"
  shows "key_ids (keys[i := setitem (keys ! i) f v]) = key_ids keys"
proof (rule nth_equalityI)
  show "length (key_ids (keys[i := setitem (keys ! i) f v])) = length (key_ids keys)"
    by (simp add: key_ids_def)
next
  fix j
  assume "j < length (key_ids (keys[i := setitem (keys ! i) f v]))"
  then have j: "j < length keys" by (simp add: key_ids_def)
  show "key_ids (keys[i := setitem (keys ! i) f v]) ! j = key_ids keys ! j"
  proof (cases "j = i")
    case True
    then show ?thesis using j assms(2) by (simp add: key_ids_def map_of_setitem)
  next
    case False
    then show ?thesis using j by (simp add: key_ids_def)
  qed
qed

lemma handle_key_ids:
  "key_ids (api_keys_db (snd (handle rt c s))) = key_ids (api_keys_db s) \<or>
   (length (api_keys_db (snd (handle rt c s))) = Suc (length (api_keys_db s)) \<and>
    key_ids (api_keys_db (snd (handle rt c s))) =
      key_ids (api_keys_db s) @ [Some (VStr (''key-'' @ fmt_03d (length (api_keys_db s) + 1)))])"
  using handle_keys [of rt c s]
proof (elim disjE exE conjE)
  assume "api_keys_db (snd (handle rt c s)) = api_keys_db s"
  then show ?thesis by simp
next
  fix p t
  assume "api_keys_db (snd (handle rt c s)) = api_keys_db s @
      [[(''id'', VStr (''key-'' @ fmt_03d (length (api_keys_db s) + 1))),
        (''name'', VStr (name p)),
        (''system_name'', VStr (system_name p)),
        (''system_type'', VStr (system_type p)),
        (''env'', VStr (env p)),
        (''status'', VStr ''active''),
        (''last_used_at'', VNone),
        (''last_rotated_at'', VTime t),
        (''allocated_to'', VList [])]]"
  then show ?thesis by (simp add: key_ids_def)
next
  fix i f v
  assume "i < length (api_keys_db s)" "f = ''last_rotated_at''"
    "api_keys_db (snd (handle rt c s)) = (api_keys_db s)[i := setitem (api_keys_db s ! i) f v]"
  then show ?thesis using key_ids_update [of i "api_keys_db s" f v] by simp
next
  fix i f v
  assume "i < length (api_keys_db s)" "f = ''allocated_to''"
    "api_keys_db (snd (handle rt c s)) = (api_keys_db s)[i := setitem (api_keys_db s ! i) f v]"
  then show ?thesis using key_ids_update [of i "api_keys_db s" f v] by simp
qed

lemma length_key_ids: "length (key_ids keys) = length keys"
  by (simp add: key_ids_def)

lemma expected_ids_Suc:
  "expected_ids (Suc n) = expected_ids n @ [Some (VStr (''key-'' @ fmt_03d (n + 1)))]"
  by (simp add: expected_ids_def)

lemma distinct_expected_ids: "distinct (expected_ids n)"
proof -
  have "inj_on (\<lambda>i. Some (VStr (''key-'' @ fmt_03d (i + 1)))) (set [0..<n])"
    by (rule inj_onI) (auto dest: fmt_03d_inj)
  then show ?thesis by (simp add: expected_ids_def distinct_map)
qed

lemma handle_ids_in_order:
  assumes "key_ids (api_keys_db s) = expected_ids (length (api_keys_db s))"
  shows "key_ids (api_keys_db (snd (handle rt c s))) =
         expected_ids (length (api_keys_db (snd (handle rt c s))))"
  using handle_key_ids [of rt c s]
proof
  assume same: "key_ids (api_keys_db (snd (handle rt c s))) = key_ids (api_keys_db s)"
  then have "length (api_keys_db (snd (handle rt c s))) = length (api_keys_db s)"
    using length_key_ids by metis
  then show ?thesis using same assms by simp
next
  assume "length (api_keys_db (snd (handle rt c s))) = Suc (length (api_keys_db s)) \<and>
    key_ids (api_keys_db (snd (handle rt c s))) =
      key_ids (api_keys_db s) @ [Some (VStr (''key-'' @ fmt_03d (length (api_keys_db s) + 1)))]"
  then show ?thesis using assms by (simp add: expected_ids_Suc)
qed

lemma run_ids_in_order:
  "key_ids (api_keys_db s) = expected_ids (length (api_keys_db s)) \<Longrightarrow>
   key_ids (api_keys_db (run rt cs s)) = expected_ids (length (api_keys_db (run rt cs s)))"
  by (induction cs arbitrary: s) (simp_all add: handle_ids_in_order)

lemma initial_ids_in_order:
  "key_ids (api_keys_db initial_state) = expected_ids (length (api_keys_db initial_state))"
  by (simp add: initial_state_def initial_keys_def key_ids_def expected_ids_def
        fmt_03d_def digits.simps digit_char_def upt_rec numeral_3_eq_3)

lemma handle_ids_prefix:
  "prefix (key_ids (api_keys_db s)) (key_ids (api_keys_db (snd (handle rt c s))))"
  using handle_key_ids [of rt c s] by auto

lemma run_ids_prefix:
  "prefix (key_ids (api_keys_db s)) (key_ids (api_keys_db (run rt cs s)))"
proof (induction cs arbitrary: s)
  case Nil
  show ?case by simp
next
  case (Cons c cs)
  have "prefix (key_ids (api_keys_db s)) (key_ids (api_keys_db (snd (handle rt c s))))"
    by (rule handle_ids_prefix)
  also have "prefix \<dots> (key_ids (api_keys_db (run rt cs (snd (handle rt c s)))))"
    by (rule Cons.IH)
  finally show ?case by simp
qed

lemma run_append: "run rt (cs @ cs') s = run rt cs' (run rt cs s)"
  by (induction cs arbitrary: s) simp_all

lemma next_id_is_fresh:
  "Some (VStr (''key-'' @ fmt_03d (n + 1))) \<notin> set (expected_ids n)"
  using distinct_expected_ids [of "Suc n"] by (simp add: expected_ids_Suc)

lemma create_key_parts:
  "create_key rt payload now1 now2 s = store_key rt payload (next_key_id s) now1 now2 s"
  by (simp add: create_key_def store_key_def next_key_id_def Let_def)

text \<open>
  Calls that do not overlap keep the ids apart: whatever calls have been handled one
  after the other since the service started, the credential at position \<open>i\<close> has the id
  \<^verbatim>\<open>key-\<close> followed by \<open>i + 1\<close> in the \<^verbatim>\<open>:03d\<close> format, so the stored ids are
  pairwise different; the next \<^verbatim>\<open>create_key\<close> returns an id that no stored credential
  has and stores one credential with it after the others; and the ids already stored keep
  their positions through every later call.
\<close>

lemma sequential_ids_are_unique:
  "distinct (key_ids (api_keys_db (run rt cs initial_state))) \<and>
   key_ids (api_keys_db (run rt cs initial_state)) =
     expected_ids (length (api_keys_db (run rt cs initial_state))) \<and>
   fst (create_key rt p t1 t2 (run rt cs initial_state)) =
     Inr (Json [(''status'', VStr ''ok''),
                (''key_id'', VStr (next_key_id (run rt cs initial_state)))]) \<and>
   Some (VStr (next_key_id (run rt cs initial_state)))
     \<notin> set (key_ids (api_keys_db (run rt cs initial_state))) \<and>
   key_ids (api_keys_db (snd (create_key rt p t1 t2 (run rt cs initial_state)))) =
     key_ids (api_keys_db (run rt cs initial_state)) @
       [Some (VStr (next_key_id (run rt cs initial_state)))] \<and>
   prefix (key_ids (api_keys_db (run rt cs initial_state)))
          (key_ids (api_keys_db (run rt (cs @ cs') initial_state)))"
proof -
  let ?s = "run rt cs initial_state"
  have order: "key_ids (api_keys_db ?s) = expected_ids (length (api_keys_db ?s))"
    by (rule run_ids_in_order [OF initial_ids_in_order])
  then have "distinct (key_ids (api_keys_db ?s))"
    using distinct_expected_ids by simp
  moreover have "Some (VStr (next_key_id ?s)) \<notin> set (key_ids (api_keys_db ?s))"
    using order next_id_is_fresh by (simp add: next_key_id_def)
  moreover have "fst (create_key rt p t1 t2 ?s) =
     Inr (Json [(''status'', VStr ''ok''), (''key_id'', VStr (next_key_id ?s))])"
    by (simp add: create_key_parts store_key_def Let_def)
  moreover have "key_ids (api_keys_db (snd (create_key rt p t1 t2 ?s))) =
     key_ids (api_keys_db ?s) @ [Some (VStr (next_key_id ?s))]"
    by (simp add: create_key_parts store_key_def Let_def key_ids_def)
  moreover have "prefix (key_ids (api_keys_db ?s))
          (key_ids (api_keys_db (run rt (cs @ cs') initial_state)))"
    by (simp add: run_append run_ids_prefix)
  ultimately show ?thesis using order by blast
qed

lemma next_key_id_initial: "next_key_id initial_state = ''key-004''"
  by (simp add: next_key_id_def initial_state_def initial_keys_def fmt_03d_4)

text \<open>
  C7. The ids that \<^verbatim>\<open>create_key\<close> assigns are not always different. When two
  \<^verbatim>\<open>create_key\<close> calls overlap in the initial storage, so that each reads the length
  of \<^verbatim>\<open>api_keys_db\<close> before the other appends, both callers are returned the id
  \<^verbatim>\<open>key-004\<close> and the storage holds two credentials, of different names, with that
  id: the ids of the stored credentials are no longer pairwise different.
\<close>

theorem overlapping_creates_share_an_id:
  "fst (overlapping_creates demo_runtime key_request second_key_request demo_time demo_time
          initial_state) =
     Inr (Json [(''status'', VStr ''ok''), (''key_id'', VStr ''key-004'')]) \<and>
   fst (snd (overlapping_creates demo_runtime key_request second_key_request demo_time demo_time
          initial_state)) =
     Inr (Json [(''status'', VStr ''ok''), (''key_id'', VStr ''key-004'')]) \<and>
   key_ids (api_keys_db (snd (snd (overlapping_creates demo_runtime key_request
          second_key_request demo_time demo_time initial_state)))) =
     [Some (VStr ''key-001''), Some (VStr ''key-002''), Some (VStr ''key-003''),
      Some (VStr ''key-004''), Some (VStr ''key-004'')] \<and>
   map_of (api_keys_db (snd (snd (overlapping_creates demo_runtime key_request
          second_key_request demo_time demo_time initial_state))) ! 3) ''name'' =
     Some (VStr ''Session Cache'') \<and>
   map_of (api_keys_db (snd (snd (overlapping_creates demo_runtime key_request
          second_key_request demo_time demo_time initial_state))) ! 4) ''name'' =
     Some (VStr ''Event Bus'') \<and>
   \<not> distinct (key_ids (api_keys_db (snd (snd (overlapping_creates demo_runtime key_request
          second_key_request demo_time demo_time initial_state)))))"
  unfolding overlapping_creates_def next_key_id_initial
  by (simp add: store_key_def Let_def key_ids_def initial_state_def initial_keys_def
        key_request_def second_key_request_def)

section \<open>Rotation and versions\<close>

text \<open>
  C1, as the code has it. No credential carries a \<^verbatim>\<open>currentVersion\<close>: the
  credentials of every storage the service reaches have no such field. A successful
  rotation sets \<^verbatim>\<open>last_rotated_at\<close> of the first credential with the given id to the
  time read by the call, and leaves the (absent) \<^verbatim>\<open>currentVersion\<close> as it is.
\<close>

theorem rotate_key_sets_last_rotated_at:
  "(rotate_key rt kid t1 t2 s = (Inr r, s') \<longrightarrow>
      (\<exists>i < length (api_keys_db s).
         map_of (api_keys_db s ! i) ''id'' = Some (VStr kid) \<and>
         api_keys_db s' =
           (api_keys_db s)[i := setitem (api_keys_db s ! i) ''last_rotated_at'' (VTime t1)] \<and>
         map_of (api_keys_db s' ! i) ''last_rotated_at'' = Some (VTime t1) \<and>
         map_of (api_keys_db s' ! i) ''currentVersion'' =
           map_of (api_keys_db s ! i) ''currentVersion'')) \<and>
   (\<forall>k \<in> set (api_keys_db (run rt cs initial_state)). map_of k ''currentVersion'' = None)"
proof -
  have "\<exists>i < length (api_keys_db s).
         map_of (api_keys_db s ! i) ''id'' = Some (VStr kid) \<and>
         api_keys_db s' =
           (api_keys_db s)[i := setitem (api_keys_db s ! i) ''last_rotated_at'' (VTime t1)] \<and>
         map_of (api_keys_db s' ! i) ''last_rotated_at'' = Some (VTime t1) \<and>
         map_of (api_keys_db s' ! i) ''currentVersion'' =
           map_of (api_keys_db s ! i) ''currentVersion''"
    if ok: "rotate_key rt kid t1 t2 s = (Inr r, s')"
  proof -
    from rotate_key_success [OF ok] obtain i where
      found: "find_key kid (api_keys_db s) = Inr (Some i)" and
      keys: "api_keys_db s' =
           (api_keys_db s)[i := setitem (api_keys_db s ! i) ''last_rotated_at'' (VTime t1)]"
      by auto
    from find_key_Some [OF found] have "i < length (api_keys_db s)"
      and "map_of (api_keys_db s ! i) ''id'' = Some (VStr kid)" by simp_all
    then show ?thesis using keys by (auto simp: map_of_setitem)
  qed
  then show ?thesis using reachable_fields [of rt cs] by blast
qed

text \<open>The property for a rotation of \<^verbatim>\<open>key-002\<close> in the initial storage.\<close>

theorem rotate_key_sets_last_rotated_at_witness:
  "rotate_key demo_runtime ''key-002'' demo_time demo_time initial_state =
     (Inr (Json [(''status'', VStr ''rotated''), (''key_id'', VStr ''key-002'')]),
      snd (rotate_key demo_runtime ''key-002'' demo_time demo_time initial_state)) \<and>
   (\<exists>i < length (api_keys_db initial_state).
      map_of (api_keys_db initial_state ! i) ''id'' = Some (VStr ''key-002'') \<and>
      map_of (api_keys_db (snd (rotate_key demo_runtime ''key-002'' demo_time demo_time initial_state)) ! i)
        ''last_rotated_at'' = Some (VTime demo_time)) \<and>
   map_of (api_keys_db (run demo_runtime [] initial_state) ! 1) ''currentVersion'' = None"
proof -
  from rotate_key_sets_last_rotated_at [of demo_runtime "''key-002''" demo_time demo_time
      initial_state "Json [(''status'', VStr ''rotated''), (''key_id'', VStr ''key-002'')]"
      "snd (rotate_key demo_runtime ''key-002'' demo_time demo_time initial_state)" "[]"]
    rotate_key_002
  have "\<exists>i < length (api_keys_db initial_state).
      map_of (api_keys_db initial_state ! i) ''id'' = Some (VStr ''key-002'') \<and>
      map_of (api_keys_db (snd (rotate_key demo_runtime ''key-002'' demo_time demo_time initial_state)) ! i)
        ''last_rotated_at'' = Some (VTime demo_time)"
    by blast
  moreover have "map_of (api_keys_db (run demo_runtime [] initial_state) ! 1) ''currentVersion'' = None"
    by (simp add: initial_state_def initial_keys_def)
  ultimately show ?thesis using rotate_key_002 by blast
qed

text \<open>
  Against C1 as stated: the rotation of \<^verbatim>\<open>key-001\<close> in the initial storage succeeds,
  the credential has no \<^verbatim>\<open>currentVersion\<close> before or after it, and a second rotation
  at the same clock reading leaves the credentials exactly as the first did, so nothing
  stored in a credential counts rotations.
\<close>

theorem rotate_key_version_counterexample:
  "fst (handle demo_runtime (admin_call (RotateKey ''key-001'')) initial_state) =
     Inr (Json [(''status'', VStr ''rotated''), (''key_id'', VStr ''key-001'')]) \<and>
   map_of (api_keys_db initial_state ! 0) ''currentVersion'' = None \<and>
   map_of (api_keys_db (snd (handle demo_runtime (admin_call (RotateKey ''key-001'')) initial_state)) ! 0)
     ''currentVersion'' = None \<and>
   api_keys_db (run demo_runtime [admin_call (RotateKey ''key-001''), admin_call (RotateKey ''key-001'')] initial_state) =
   api_keys_db (run demo_runtime [admin_call (RotateKey ''key-001'')] initial_state)"
  unfolding rotate_key_001 fst_conv snd_conv
  using run_rotate_twice by (simp add: initial_state_def initial_keys_def rotated_keys_def)

section \<open>Listing the credentials\<close>

text \<open>
  C8, as the code has it. \<^verbatim>\<open>list_keys\<close> takes no filter: it returns every stored
  credential, which is what the specification's listing gives when no filter is
  supplied, and leaves the storage as it is. The order is the order of creation:
  \<^verbatim>\<open>create_key\<close> puts the new credential after the existing ones, and no call
  changes the sequence of ids already stored.
\<close>

theorem list_keys_returns_all:
  "list_keys s = (Inr (JsonList (list_spec no_filter s)), s) \<and>
   list_spec no_filter s = api_keys_db s \<and>
   (\<exists>k. api_keys_db (snd (create_key rt p t1 t2 s)) = api_keys_db s @ [k]) \<and>
   prefix (key_ids (api_keys_db s)) (key_ids (api_keys_db (snd (handle rt c s))))"
proof -
  have "list_spec no_filter s = api_keys_db s"
    by (simp add: list_spec_def no_filter_def matches_def agrees_def)
  moreover have "\<exists>k. api_keys_db (snd (create_key rt p t1 t2 s)) = api_keys_db s @ [k]"
    by (simp add: create_key_def Let_def)
  ultimately show ?thesis
    using handle_ids_prefix [of s rt c] by (simp add: list_keys_def)
qed

text \<open>
  Against C8 as stated: with the filter \<open>environment = staging\<close> the specification's
  listing of the initial storage is empty, while \<^verbatim>\<open>list_keys\<close> returns the three
  initial credentials.
\<close>

theorem list_keys_filter_counterexample:
  "fst (list_keys initial_state) \<noteq> Inr (JsonList (list_spec staging_filter initial_state)) \<and>
   list_spec staging_filter initial_state = [] \<and>
   fst (list_keys initial_state) = Inr (JsonList initial_keys) \<and>
   length initial_keys = 3"
  by (simp add: list_keys_def list_spec_def staging_filter_def matches_def agrees_def
        initial_state_def initial_keys_def)

section \<open>Allocations\<close>

lemma find_key_ids:
  "key_ids keys = key_ids keys' \<Longrightarrow> find_key kid keys = find_key kid keys'"
proof (induction keys arbitrary: keys')
  case Nil
  then show ?case by (simp add: key_ids_def)
next
  case (Cons k keys)
  then obtain k' rest where keys': "keys' = k' # rest"
    by (cases keys') (auto simp: key_ids_def)
  with Cons.prems have "map_of k ''id'' = map_of k' ''id''" and "key_ids keys = key_ids rest"
    by (simp_all add: key_ids_def)
  then show ?case using Cons.IH [of rest] keys' by (simp add: getitem_def split: option.splits)
qed

text \<open>What \<^verbatim>\<open>allocate_key\<close> raises, and that its outcome does not depend on the
  \<^verbatim>\<open>status\<close> field of any credential.\<close>

lemma allocate_key_not_found:
  "find_key (key_id p) (api_keys_db s) = Inr None \<Longrightarrow>
   allocate_key rt p t1 t2 s = (Inl (HTTPException 404 ''Key not found''), s)"
  by (simp add: allocate_key_def)

lemma allocate_key_http_error:
  "allocate_key rt p t1 t2 s = (Inl (HTTPException code msg), s') \<Longrightarrow>
   code = 404 \<and> msg = ''Key not found''"
proof -
  assume fails: "allocate_key rt p t1 t2 s = (Inl (HTTPException code msg), s')"
  have append_error: "append_item v x = Inl e \<Longrightarrow> e = AttributeError" for v x e
    by (cases v) auto
  have contains_error: "contains x v = Inl e \<Longrightarrow> e = TypeError" for x v e
    by (cases v) auto
  have find_error: "find_key kid keys = Inl e \<Longrightarrow> e = KeyError ''id''" for kid keys e
    by (induction keys) (auto simp: getitem_def split: option.splits if_splits sum.splits)
  show ?thesis
    using fails
    by (auto simp: allocate_key_def Let_def getitem_def
             split: sum.splits option.splits if_splits
             dest: append_error contains_error find_error)
qed

lemma allocate_key_on_list:
  assumes found: "find_key (key_id p) (api_keys_db s) = Inr (Some i)"
    and consumers: "map_of (api_keys_db s ! i) ''allocated_to'' = Some (VList l)"
  shows "\<exists>r s'. allocate_key rt p t1 t2 s = (Inr r, s') \<and>
           length (allocations_db s') = Suc (length (allocations_db s))"
  using assms by (simp add: allocate_key_def Let_def getitem_def)

lemma allocate_key_status_blind:
  assumes j: "j < length (api_keys_db s)"
  shows "fst (allocate_key rt p t1 t2
            (s\<lparr>api_keys_db := (api_keys_db s)[j := setitem (api_keys_db s ! j) ''status'' st]\<rparr>)) =
         fst (allocate_key rt p t1 t2 s)"
proof -
  let ?keys' = "(api_keys_db s)[j := setitem (api_keys_db s ! j) ''status'' st]"
  have find: "find_key (key_id p) ?keys' = find_key (key_id p) (api_keys_db s)"
    using key_ids_update [OF j, of "''status''" st] by (intro find_key_ids) simp
  have field: "getitem (?keys' ! i) ''allocated_to'' = getitem (api_keys_db s ! i) ''allocated_to''"
    if "i < length (api_keys_db s)" for i
    using that by (cases "i = j") (simp_all add: getitem_def map_of_setitem)
  show ?thesis
  proof (cases "find_key (key_id p) (api_keys_db s)")
    case (Inl e)
    then show ?thesis using find by (simp add: allocate_key_def)
  next
    case (Inr found)
    show ?thesis
    proof (cases found)
      case None
      then show ?thesis using find Inr by (simp add: allocate_key_def)
    next
      case (Some i)
      then have "i < length (api_keys_db s)" using Inr find_key_Some by blast
      then show ?thesis using find Inr Some field [of i]
        by (auto simp: allocate_key_def Let_def getitem_def split: sum.splits option.splits)
    qed
  qed
qed

lemma allocate_key_consumers:
  assumes ok: "allocate_key rt p t1 t2 s = (Inr r, s')"
    and found: "find_key (key_id p) (api_keys_db s) = Inr (Some i)"
    and before: "map_of (api_keys_db s ! i) ''allocated_to'' = Some (VList l)"
  shows "map_of (api_keys_db s' ! i) ''allocated_to'' =
           Some (VList (if VStr (consumer_id p) \<in> set l then l else l @ [VStr (consumer_id p)]))"
proof -
  from find_key_Some [OF found] have i: "i < length (api_keys_db s)" by simp
  from allocate_key_success [OF ok] found before
  have "(contains (consumer_id p) (VList l) = Inr True \<and> api_keys_db s' = api_keys_db s) \<or>
        (VStr (consumer_id p) \<notin> set l \<and>
         api_keys_db s' = (api_keys_db s)
           [i := setitem (api_keys_db s ! i) ''allocated_to'' (VList (l @ [VStr (consumer_id p)]))])"
    by auto
  then show ?thesis using i before by (auto simp: map_of_setitem)
qed

lemma allocate_key_keeps_ids:
  assumes ok: "allocate_key rt p t1 t2 s = (Inr r, s')"
  shows "key_ids (api_keys_db s') = key_ids (api_keys_db s)"
proof -
  from allocate_key_success [OF ok] obtain i where
    found: "find_key (key_id p) (api_keys_db s) = Inr (Some i)" and
    keys: "api_keys_db s' = api_keys_db s \<or>
           (\<exists>v. api_keys_db s' = (api_keys_db s)[i := setitem (api_keys_db s ! i) ''allocated_to'' v])"
    by blast
  from find_key_Some [OF found] have "i < length (api_keys_db s)" by simp
  then show ?thesis using keys key_ids_update [of i "api_keys_db s" "''allocated_to''"] by auto
qed

text \<open>
  Every credential that the service stores has the status \<^verbatim>\<open>active\<close>: it is the
  status of the three initial credentials and the one \<^verbatim>\<open>create_key\<close> writes, and no
  route writes the field again.
\<close>

lemma reachable_status_active:
  "\<forall>k \<in> set (api_keys_db (run rt cs initial_state)). map_of k ''status'' = Some (VStr ''active'')"
proof (rule run_preserves_keys)
  show "\<forall>k \<in> set (api_keys_db initial_state). map_of k ''status'' = Some (VStr ''active'')"
    by (simp add: initial_state_def initial_keys_def)
qed (simp_all add: map_of_setitem)

text \<open>
  C2, as the code has it. Every successful \<^verbatim>\<open>allocate_key\<close> adds one allocation
  record after the existing ones, with the next \<^verbatim>\<open>alloc-\<close> id and the scope of
  the request. Two successful allocations of the same key id and consumer id leave two
  records for that pair, the first with the first scope and the second with the latest;
  only the credential's \<^verbatim>\<open>allocated_to\<close> list is free of repetition, the consumer
  id being added to it when it is not there yet.
\<close>

theorem allocate_key_appends_record:
  assumes first: "allocate_key rt p t1 t2 s = (Inr r, s')"
    and second: "allocate_key rt p' t3 t4 s' = (Inr r', s'')"
    and same_key: "key_id p' = key_id p"
    and same_consumer: "consumer_id p' = consumer_id p"
  shows "\<exists>a a' i.
     allocations_db s'' = allocations_db s @ [a, a'] \<and>
     map_of a ''id'' = Some (VStr (''alloc-'' @ fmt_03d (length (allocations_db s) + 1))) \<and>
     map_of a' ''id'' = Some (VStr (''alloc-'' @ fmt_03d (length (allocations_db s) + 2))) \<and>
     map_of a ''key_id'' = Some (VStr (key_id p)) \<and>
     map_of a' ''key_id'' = Some (VStr (key_id p)) \<and>
     map_of a ''consumer_id'' = Some (VStr (consumer_id p)) \<and>
     map_of a' ''consumer_id'' = Some (VStr (consumer_id p)) \<and>
     map_of a ''scope'' = Some (VDict (scope p)) \<and>
     map_of a' ''scope'' = Some (VDict (scope p')) \<and>
     find_key (key_id p) (api_keys_db s) = Inr (Some i) \<and>
     (\<forall>l. map_of (api_keys_db s ! i) ''allocated_to'' = Some (VList l) \<longrightarrow>
        map_of (api_keys_db s'' ! i) ''allocated_to'' =
          Some (VList (if VStr (consumer_id p) \<in> set l then l else l @ [VStr (consumer_id p)])))"
proof -
  from allocate_key_success [OF first] obtain i where
    found: "find_key (key_id p) (api_keys_db s) = Inr (Some i)" and
    allocs': "allocations_db s' = allocations_db s @
             [[(''id'', VStr (''alloc-'' @ fmt_03d (length (allocations_db s) + 1))),
               (''key_id'', VStr (key_id p)),
               (''consumer_type'', VStr (consumer_type p)),
               (''consumer_id'', VStr (consumer_id p)),
               (''scope'', VDict (scope p)),
               (''created_at'', VStr (isoformat rt t1))]]"
    by blast
  from allocate_key_success [OF second]
  have allocs'': "allocations_db s'' = allocations_db s' @
             [[(''id'', VStr (''alloc-'' @ fmt_03d (length (allocations_db s') + 1))),
               (''key_id'', VStr (key_id p')),
               (''consumer_type'', VStr (consumer_type p')),
               (''consumer_id'', VStr (consumer_id p')),
               (''scope'', VDict (scope p')),
               (''created_at'', VStr (isoformat rt t3))]]"
    by blast
  have found': "find_key (key_id p') (api_keys_db s') = Inr (Some i)"
    using found same_key find_key_ids [OF allocate_key_keeps_ids [OF first]] by simp
  have consumers: "map_of (api_keys_db s'' ! i) ''allocated_to'' =
          Some (VList (if VStr (consumer_id p) \<in> set l then l else l @ [VStr (consumer_id p)]))"
    if before: "map_of (api_keys_db s ! i) ''allocated_to'' = Some (VList l)" for l
  proof -
    let ?l' = "if VStr (consumer_id p) \<in> set l then l else l @ [VStr (consumer_id p)]"
    have "map_of (api_keys_db s' ! i) ''allocated_to'' = Some (VList ?l')"
      by (rule allocate_key_consumers [OF first found before])
    from allocate_key_consumers [OF second found' this]
    show ?thesis using same_consumer by simp
  qed
  let ?a = "[(''id'', VStr (''alloc-'' @ fmt_03d (length (allocations_db s) + 1))),
             (''key_id'', VStr (key_id p)),
             (''consumer_type'', VStr (consumer_type p)),
             (''consumer_id'', VStr (consumer_id p)),
             (''scope'', VDict (scope p)),
             (''created_at'', VStr (isoformat rt t1))]"
  let ?a' = "[(''id'', VStr (''alloc-'' @ fmt_03d (length (allocations_db s) + 2))),
              (''key_id'', VStr (key_id p)),
              (''consumer_type'', VStr (consumer_type p')),
              (''consumer_id'', VStr (consumer_id p)),
              (''scope'', VDict (scope p')),
              (''created_at'', VStr (isoformat rt t3))]"
  have both: "allocations_db s'' = allocations_db s @ [?a, ?a']"
    using allocs' allocs'' same_key same_consumer by simp
  have kept: "\<forall>l. map_of (api_keys_db s ! i) ''allocated_to'' = Some (VList l) \<longrightarrow>
        map_of (api_keys_db s'' ! i) ''allocated_to'' =
          Some (VList (if VStr (consumer_id p) \<in> set l then l else l @ [VStr (consumer_id p)]))"
    using consumers by blast
  show ?thesis
    apply (rule exI [of _ ?a])
    apply (rule exI [of _ ?a'])
    apply (rule exI [of _ i])
    using both found kept apply simp
    done
qed

text \<open>The property for two allocations of \<^verbatim>\<open>key-001\<close> to \<^verbatim>\<open>C1\<close> in the
  initial storage, the first with \<^verbatim>\<open>read\<close> true and the second with it false.\<close>

theorem allocate_key_appends_record_witness:
  "allocate_key demo_runtime (allocation_request True) demo_time demo_time initial_state =
     (Inr (Json [(''status'', VStr ''allocated''), (''allocation_id'', VStr ''alloc-001'')]),
      \<lparr> api_keys_db = allocated_keys,
        allocations_db = [allocation_record ''alloc-001'' True],
        audit_log_db = [allocation_entry] \<rparr>) \<and>
   allocate_key demo_runtime (allocation_request False) demo_time demo_time
     \<lparr> api_keys_db = allocated_keys,
       allocations_db = [allocation_record ''alloc-001'' True],
       audit_log_db = [allocation_entry] \<rparr> =
     (Inr (Json [(''status'', VStr ''allocated''), (''allocation_id'', VStr ''alloc-002'')]),
      \<lparr> api_keys_db = allocated_keys,
        allocations_db = [allocation_record ''alloc-001'' True, allocation_record ''alloc-002'' False],
        audit_log_db = [allocation_entry, allocation_entry] \<rparr>) \<and>
   key_id (allocation_request False) = key_id (allocation_request True) \<and>
   consumer_id (allocation_request False) = consumer_id (allocation_request True) \<and>
   (\<exists>a a'. [allocation_record ''alloc-001'' True, allocation_record ''alloc-002'' False] =
              allocations_db initial_state @ [a, a'] \<and>
            map_of a ''scope'' = Some (VDict (scope (allocation_request True))) \<and>
            map_of a' ''scope'' = Some (VDict (scope (allocation_request False))))"
proof -
  have same_key: "key_id (allocation_request False) = key_id (allocation_request True)"
    and same_consumer: "consumer_id (allocation_request False) = consumer_id (allocation_request True)"
    by (simp_all add: allocation_request_def)
  from allocate_key_appends_record [OF allocate_first allocate_second same_key same_consumer]
  have "\<exists>a a'. [allocation_record ''alloc-001'' True, allocation_record ''alloc-002'' False] =
              allocations_db initial_state @ [a, a'] \<and>
            map_of a ''scope'' = Some (VDict (scope (allocation_request True))) \<and>
            map_of a' ''scope'' = Some (VDict (scope (allocation_request False)))"
    by (simp only: state.simps) blast
  then show ?thesis
    using allocate_first allocate_second same_key same_consumer by blast
qed

text \<open>
  Against C2 as stated: after those two allocations \<^verbatim>\<open>allocations_db\<close> holds two
  records for the pair \<^verbatim>\<open>key-001\<close>, \<^verbatim>\<open>C1\<close>, one with each scope.
\<close>

theorem allocate_same_pair_twice_counterexample:
  "allocations_db
     (run demo_runtime
        [admin_call (AllocateKey (allocation_request True)),
         admin_call (AllocateKey (allocation_request False))] initial_state) =
     [ [ (''id'', VStr ''alloc-001''),
         (''key_id'', VStr ''key-001''),
         (''consumer_type'', VStr ''service''),
         (''consumer_id'', VStr ''C1''),
         (''scope'', VDict [(''read'', VBool True)]),
         (''created_at'', VStr ''2024-02-08T09:00:00'') ],
       [ (''id'', VStr ''alloc-002''),
         (''key_id'', VStr ''key-001''),
         (''consumer_type'', VStr ''service''),
         (''consumer_id'', VStr ''C1''),
         (''scope'', VDict [(''read'', VBool False)]),
         (''created_at'', VStr ''2024-02-08T09:00:00'') ] ]"
proof -
  have "allocations_db
     (run demo_runtime
        [admin_call (AllocateKey (allocation_request True)),
         admin_call (AllocateKey (allocation_request False))] initial_state) =
     [allocation_record ''alloc-001'' True, allocation_record ''alloc-002'' False]"
    by (simp only: run.simps handle_admin_call route.simps allocate_first allocate_second
          snd_conv state.simps)
  then show ?thesis by (simp only: allocation_record_def)
qed

section \<open>Writing the audit log\<close>

lemma rotate_key_failure_audit:
  "rotate_key rt kid t1 t2 s = (Inl e, s') \<Longrightarrow> audit_log_db s' = audit_log_db s"
  by (auto simp: rotate_key_def Let_def split: sum.splits option.splits)

lemma route_audit:
  "(\<exists>entry r'. fst (route rt r t1 t2 s) = Inr r' \<and> logged r \<and>
       map_of entry ''sequence'' = None \<and>
       audit_log_db (snd (route rt r t1 t2 s)) = audit_log_db s @ [entry]) \<or>
   (((\<exists>e. fst (route rt r t1 t2 s) = Inl e) \<or> \<not> logged r) \<and>
    audit_log_db (snd (route rt r t1 t2 s)) = audit_log_db s)"
proof (cases r)
  case (CreateKey p)
  have "map_of [(''timestamp'', VStr (isoformat rt t2)),
                (''action'', VStr ''create_key''),
                (''key_id'', VStr (''key-'' @ fmt_03d (length (api_keys_db s) + 1))),
                (''details'', VStr (''Created key '' @ [CHR 0x27] @ name p @ [CHR 0x27]))]
          ''sequence'' = None"
    by simp
  then show ?thesis
    unfolding CreateKey by (intro disjI1 exI conjI) (simp_all add: create_key_def Let_def)
next
  case (AllocateKey p)
  obtain x s' where out: "allocate_key rt p t1 t2 s = (x, s')"
    by (cases "allocate_key rt p t1 t2 s")
  show ?thesis
  proof (cases x)
    case (Inl e)
    then show ?thesis
      using out allocate_key_failure [of rt p t1 t2 s e s'] by (simp add: AllocateKey)
  next
    case (Inr r')
    have "map_of [(''timestamp'', VStr (isoformat rt t2)),
                  (''action'', VStr ''allocate_key''),
                  (''key_id'', VStr (key_id p)),
                  (''details'', VStr (''Allocated to '' @ consumer_id p))] ''sequence'' = None"
      by simp
    moreover have "audit_log_db s' = audit_log_db s @
                 [[(''timestamp'', VStr (isoformat rt t2)),
                   (''action'', VStr ''allocate_key''),
                   (''key_id'', VStr (key_id p)),
                   (''details'', VStr (''Allocated to '' @ consumer_id p))]]"
      using allocate_key_success [of rt p t1 t2 s r' s'] out Inr by blast
    ultimately show ?thesis
      unfolding AllocateKey using out Inr by (intro disjI1 exI conjI) simp_all
  qed
next
  case (RotateKey kid)
  obtain x s' where out: "rotate_key rt kid t1 t2 s = (x, s')"
    by (cases "rotate_key rt kid t1 t2 s")
  show ?thesis
  proof (cases x)
    case (Inl e)
    then show ?thesis
      using out rotate_key_failure_audit [of rt kid t1 t2 s e s'] by (simp add: RotateKey)
  next
    case (Inr r')
    from rotate_key_success [of rt kid t1 t2 s r' s'] out Inr obtain nm where
      "audit_log_db s' = audit_log_db s @
                     [[(''timestamp'', VStr (isoformat rt t2)),
                       (''action'', VStr ''rotate_key''),
                       (''key_id'', VStr kid),
                       (''details'', VStr (''Rotated key '' @ [CHR 0x27] @
                                           fstring_value rt nm @ [CHR 0x27]))]]"
      by auto
    moreover have "map_of [(''timestamp'', VStr (isoformat rt t2)),
                       (''action'', VStr ''rotate_key''),
                       (''key_id'', VStr kid),
                       (''details'', VStr (''Rotated key '' @ [CHR 0x27] @
                                           fstring_value rt nm @ [CHR 0x27]))] ''sequence'' = None"
      by simp
    ultimately show ?thesis
      unfolding RotateKey using out Inr by (intro disjI1 exI conjI) simp_all
  qed
next
  case (SystemRequest payload)
  have "map_of [(''timestamp'', VStr (isoformat rt t1)),
                (''action'', VStr ''system_request''),
                (''details'', VStr (json_dumps rt payload))] ''sequence'' = None"
    by simp
  then show ?thesis
    unfolding SystemRequest by (intro disjI1 exI conjI) (simp_all add: system_request_def)
next
  case (GetKey kid)
  then show ?thesis by (simp add: get_key_def split: sum.splits option.splits)
qed (simp_all add: root_def health_def list_keys_def list_allocations_def get_audit_log_def)

lemma handle_audit:
  "(\<exists>entry r. fst (handle rt c s) = Inr r \<and> logged (request c) \<and>
       map_of entry ''sequence'' = None \<and>
       audit_log_db (snd (handle rt c s)) = audit_log_db s @ [entry]) \<or>
   (((\<exists>e. fst (handle rt c s) = Inl e) \<or> \<not> logged (request c)) \<and>
    audit_log_db (snd (handle rt c s)) = audit_log_db s)"
proof (cases "handle rt c s = route rt (request c) (clock1 c) (clock2 c) s")
  case True
  then show ?thesis
    using route_audit [of rt "request c" "clock1 c" "clock2 c" s] by simp
next
  case False
  then have "\<exists>e. handle rt c s = (Inl e, s)"
    by (auto simp: handle_def split: if_splits sum.splits)
  then show ?thesis by auto
qed

lemma run_audit_unnumbered:
  "\<forall>e \<in> set (audit_log_db s). map_of e ''sequence'' = None \<Longrightarrow>
   \<forall>e \<in> set (audit_log_db (run rt cs s)). map_of e ''sequence'' = None"
proof (induction cs arbitrary: s)
  case Nil
  then show ?case by simp
next
  case (Cons c cs)
  have "\<forall>e \<in> set (audit_log_db (snd (handle rt c s))). map_of e ''sequence'' = None"
    using handle_audit [of rt c s] Cons.prems by auto
  then show ?case using Cons.IH by simp
qed

text \<open>
  C4, as the code has it. No audit entry has a \<^verbatim>\<open>sequence\<close> field, in any storage
  the service reaches; the order of the entries is their position in the list. A call
  that returns from \<^verbatim>\<open>create_key\<close>, \<^verbatim>\<open>allocate_key\<close>, \<^verbatim>\<open>rotate_key\<close> or
  \<^verbatim>\<open>system_request\<close> adds exactly one entry, at the end, and keeps the earlier
  entries; a call that fails, and a call to any other route, leaves the log as it is.
\<close>

theorem audit_log_is_append_only:
  "(\<forall>e \<in> set (audit_log_db (run rt cs initial_state)). map_of e ''sequence'' = None) \<and>
   ((\<exists>entry r. fst (handle rt c s) = Inr r \<and> logged (request c) \<and>
        map_of entry ''sequence'' = None \<and>
        audit_log_db (snd (handle rt c s)) = audit_log_db s @ [entry]) \<or>
    (((\<exists>e. fst (handle rt c s) = Inl e) \<or> \<not> logged (request c)) \<and>
     audit_log_db (snd (handle rt c s)) = audit_log_db s))"
proof -
  have "\<forall>e \<in> set (audit_log_db initial_state). map_of e ''sequence'' = None"
    by (simp add: initial_state_def)
  then show ?thesis
    using run_audit_unnumbered [of initial_state rt cs] handle_audit [of rt c s] by blast
qed

text \<open>The property for a \<^verbatim>\<open>create_key\<close> call in the initial storage, once with the
  admin key and once without.\<close>

theorem audit_log_is_append_only_witness:
  "map_of (audit_log_db (run demo_runtime [admin_call (CreateKey key_request)] initial_state) ! 0)
     ''sequence'' = None \<and>
   logged (request (admin_call (CreateKey key_request))) \<and>
   (\<exists>entry. audit_log_db (snd (handle demo_runtime (admin_call (CreateKey key_request)) initial_state)) =
              audit_log_db initial_state @ [entry]) \<and>
   audit_log_db (snd (handle demo_runtime (anonymous_call (CreateKey key_request)) initial_state)) =
     audit_log_db initial_state"
proof -
  have ok: "fst (handle demo_runtime (admin_call (CreateKey key_request)) initial_state) =
     Inr (Json [(''status'', VStr ''ok''), (''key_id'', VStr ''key-004'')])"
    and log: "audit_log_db (snd (handle demo_runtime (admin_call (CreateKey key_request)) initial_state)) =
     [creation_entry]"
    using create_session_cache by simp_all
  have denied: "fst (handle demo_runtime (anonymous_call (CreateKey key_request)) initial_state) =
     Inl (HTTPException 401 ''Invalid or missing admin API key'')"
    by (simp add: handle_def anonymous_call_def require_admin_def)
  have first: "map_of (audit_log_db (run demo_runtime [admin_call (CreateKey key_request)] initial_state) ! 0)
     ''sequence'' = None"
    using audit_log_is_append_only [of demo_runtime "[admin_call (CreateKey key_request)]"
        "admin_call (CreateKey key_request)" initial_state] log
    by simp
  have second: "\<exists>entry. audit_log_db (snd (handle demo_runtime (admin_call (CreateKey key_request)) initial_state)) =
              audit_log_db initial_state @ [entry]"
    using audit_log_is_append_only [of demo_runtime "[]"
        "admin_call (CreateKey key_request)" initial_state] ok
    by (auto simp: admin_call_def)
  have third: "audit_log_db (snd (handle demo_runtime (anonymous_call (CreateKey key_request)) initial_state)) =
     audit_log_db initial_state"
    using audit_log_is_append_only [of demo_runtime "[]"
        "anonymous_call (CreateKey key_request)" initial_state] denied
    by auto
  show ?thesis using first second third by (simp add: admin_call_def)
qed

text \<open>
  Against C4 as stated: the entry that \<^verbatim>\<open>create_key\<close> appends has the four fields
  \<^verbatim>\<open>timestamp\<close>, \<^verbatim>\<open>action\<close>, \<^verbatim>\<open>key_id\<close> and \<^verbatim>\<open>details\<close> and no
  sequence number, and two rotations of \<^verbatim>\<open>key-001\<close> at the same clock reading
  append two equal entries.
\<close>

theorem audit_sequence_counterexample:
  "fst (handle demo_runtime (admin_call (CreateKey key_request)) initial_state) =
     Inr (Json [(''status'', VStr ''ok''), (''key_id'', VStr ''key-004'')]) \<and>
   audit_log_db (snd (handle demo_runtime (admin_call (CreateKey key_request)) initial_state)) =
     [ [ (''timestamp'', VStr ''2024-02-08T09:00:00''),
         (''action'', VStr ''create_key''),
         (''key_id'', VStr ''key-004''),
         (''details'', VStr (''Created key '' @ [CHR 0x27] @ ''Session Cache'' @ [CHR 0x27])) ] ] \<and>
   map_of (audit_log_db (snd (handle demo_runtime (admin_call (CreateKey key_request))
                                 initial_state)) ! 0) ''sequence'' = None \<and>
   audit_log_db
     (run demo_runtime
        [admin_call (RotateKey ''key-001''), admin_call (RotateKey ''key-001'')] initial_state) =
     [rotation_entry, rotation_entry]"
proof -
  have "audit_log_db
     (run demo_runtime
        [admin_call (RotateKey ''key-001''), admin_call (RotateKey ''key-001'')] initial_state) =
     [rotation_entry, rotation_entry]"
    by (simp only: run.simps rotate_key_001 rotate_key_001_again snd_conv state.simps)
  then show ?thesis
    using create_session_cache by (simp add: creation_entry_def)
qed

section \<open>Reading the audit log\<close>

text \<open>
  C10. The audit-log query returns the entries at the end of the log, in the order they
  were appended, and as many of them as the log has, up to 100: nothing older than the
  most recent 100 is returned. The storage is left as it is.
\<close>

theorem get_audit_log_last_100:
  "\<exists>older recent.
     get_audit_log s = (Inr (JsonList recent), s) \<and>
     audit_log_db s = older @ recent \<and>
     length recent = min 100 (length (audit_log_db s))"
proof -
  let ?n = "length (audit_log_db s) - 100"
  have "audit_log_db s = take ?n (audit_log_db s) @ drop ?n (audit_log_db s)"
    by simp
  moreover have "length (drop ?n (audit_log_db s)) = min 100 (length (audit_log_db s))"
    by auto
  ultimately show ?thesis
    unfolding get_audit_log_def by blast
qed

end
